theory Spec2Isabelle
  imports Complex_Main "HOL-Library.Multiset"
begin

section \<open>JavaScript strings and the character classes of the regular expressions\<close>

text \<open>
  A JavaScript string is a sequence of code units. The model uses \<^typ>\<open>string\<close>: the code
  units below 256 (ASCII and Latin-1), on which \<^verbatim>\<open>toLowerCase\<close>, \<^verbatim>\<open>\s\<close> and
  \<^verbatim>\<open>\w\<close> are written out in full.
\<close>

definition is_space :: "char \<Rightarrow> bool" where
  \<comment> \<open>\<^verbatim>\<open>\s\<close>: TAB, LF, VT, FF, CR, SPACE and NBSP are the white space and line
      terminators below 256.\<close>
  "is_space c \<longleftrightarrow>
     c = CHR 0x09 \<or> c = CHR 0x0A \<or> c = CHR 0x0B \<or> c = CHR 0x0C \<or> c = CHR 0x0D \<or>
     c = CHR 0x20 \<or> c = CHR 0xA0"

definition is_az :: "char \<Rightarrow> bool" where
  \<comment> \<open>\<^verbatim>\<open>[a-z]\<close>\<close>
  "is_az c \<longleftrightarrow> 97 \<le> (of_char c :: nat) \<and> (of_char c :: nat) \<le> 122"

definition is_word :: "char \<Rightarrow> bool" where
  \<comment> \<open>\<^verbatim>\<open>\w\<close>, that is \<^verbatim>\<open>[A-Za-z0-9_]\<close>\<close>
  "is_word c \<longleftrightarrow>
     (let n = (of_char c :: nat)
      in (65 \<le> n \<and> n \<le> 90) \<or> (97 \<le> n \<and> n \<le> 122) \<or> (48 \<le> n \<and> n \<le> 57) \<or> n = 95)"

definition to_lower :: "char \<Rightarrow> char" where
  \<comment> \<open>one code unit of \<^verbatim>\<open>toLowerCase\<close>: A-Z, and the Latin-1 capitals 0xC0-0xDE
      without the multiplication sign 0xD7, move up by 32.\<close>
  "to_lower c =
     (let n = (of_char c :: nat)
      in if (65 \<le> n \<and> n \<le> 90) \<or> (192 \<le> n \<and> n \<le> 222 \<and> n \<noteq> 215)
         then char_of (n + 32) else c)"

definition toLowerCase :: "string \<Rightarrow> string" where
  "toLowerCase s = map to_lower s"

definition trim :: "string \<Rightarrow> string" where
  "trim s = rev (dropWhile is_space (rev (dropWhile is_space s)))"

fun split_char :: "char \<Rightarrow> string \<Rightarrow> string list" where
  \<comment> \<open>\<^verbatim>\<open>s.split(sep)\<close> for a separator of one character: empty pieces are kept,
      and the empty string gives one empty piece.\<close>
  "split_char sep [] = [[]]"
| "split_char sep (c # cs) =
     (if c = sep then [] # split_char sep cs
      else (case split_char sep cs of
              [] \<Rightarrow> [[c]]
            | w # ws \<Rightarrow> (c # w) # ws))"

fun join :: "string \<Rightarrow> string list \<Rightarrow> string" where
  \<comment> \<open>\<^verbatim>\<open>ws.join(sep)\<close>\<close>
  "join sep [] = []"
| "join sep [w] = w"
| "join sep (w # v # ws) = w @ sep @ join sep (v # ws)"

section \<open>part\_001: the tokenizer\<close>

definition ENGLISH_STOPWORDS :: "string list" where
  "ENGLISH_STOPWORDS =
   [''a'', ''an'', ''the'', ''and'', ''or'', ''but'', ''if'', ''then'', ''else'', ''when'',
    ''at'', ''by'', ''for'', ''with'', ''about'', ''against'', ''between'', ''into'',
    ''through'', ''during'', ''before'', ''after'', ''to'', ''from'', ''up'', ''down'',
    ''in'', ''out'', ''on'', ''off'', ''over'', ''under'', ''again'', ''further'', ''once'',
    ''here'', ''there'', ''all'', ''any'', ''both'', ''each'', ''few'', ''more'', ''most'',
    ''other'', ''some'', ''such'', ''no'', ''nor'', ''not'', ''only'', ''own'', ''same'',
    ''so'', ''than'', ''too'', ''very'', ''can'', ''will'', ''just'', ''don'', ''should'',
    ''now'', ''is'', ''am'', ''are'', ''was'', ''were'', ''be'', ''been'', ''being'',
    ''do'', ''does'', ''did'', ''having'', ''have'', ''has'', ''i'', ''me'', ''my'',
    ''myself'', ''we'', ''our'', ''ours'', ''ourselves'', ''you'', ''your'', ''yours'',
    ''yourself'', ''yourselves'', ''he'', ''him'', ''his'', ''himself'', ''she'', ''her'',
    ''hers'', ''herself'', ''it'', ''its'', ''itself'', ''they'', ''them'', ''their'',
    ''theirs'', ''themselves'', ''what'', ''which'', ''who'', ''whom'', ''this'', ''that'',
    ''these'', ''those'', ''because'', ''why'', ''how'']"

definition url_match :: "string \<Rightarrow> string option" where
  \<comment> \<open>\<^verbatim>\<open>/https?:\/\/\S+/\<close> tried at the start of \<open>s\<close>: the rest of \<open>s\<close> after the
      match. \<^verbatim>\<open>\S+\<close> is greedy and nothing follows it, so it takes the whole run.\<close>
  "url_match s =
     (let body = (if take 8 s = ''https://'' then Some (drop 8 s)
                  else if take 7 s = ''http://'' then Some (drop 7 s)
                  else None)
      in case body of
           None \<Rightarrow> None
         | Some [] \<Rightarrow> None
         | Some (c # cs) \<Rightarrow>
             if is_space c then None
             else Some (dropWhile (\<lambda>x. \<not> is_space x) cs))"

function replace_urls :: "string \<Rightarrow> string" where
  \<comment> \<open>\<^verbatim>\<open>.replace(/https?:\/\/\S+/g, ' ')\<close>: leftmost matches, each resumed after its end\<close>
  "replace_urls [] = []"
| "replace_urls (c # cs) =
     (case url_match (c # cs) of
        Some rest \<Rightarrow> CHR '' '' # replace_urls rest
      | None \<Rightarrow> c # replace_urls cs)"
  by pat_completeness auto
termination
proof (relation "measure length")
  show "wf (measure (length :: string \<Rightarrow> nat))" by simp
next
  fix c :: char and cs rest :: string
  assume m: "url_match (c # cs) = Some rest"
  have le: "length (dropWhile (\<lambda>x. \<not> is_space x) ys) \<le> length ys" for ys
    by (rule length_dropWhile_le)
  have dr: "length ds < length xs" if "drop k xs = d # ds" for k d and ds xs :: string
  proof -
    have "length (drop k xs) = Suc (length ds)" using that by simp
    then show ?thesis by simp
  qed
  from m have "length rest < length (c # cs)"
    unfolding url_match_def Let_def
    by (auto split: if_splits option.splits list.splits
          dest!: dr intro: le_less_trans [OF le] less_trans)
  then show "(rest, c # cs) \<in> measure length" by simp
next
  fix c :: char and cs :: string
  show "(cs, c # cs) \<in> measure length" by simp
qed

definition replace_nonalpha :: "string \<Rightarrow> string" where
  \<comment> \<open>\<^verbatim>\<open>.replace(/[^a-z\s]/g, ' ')\<close>\<close>
  "replace_nonalpha s = map (\<lambda>c. if is_az c \<or> is_space c then c else CHR '' '') s"

function collapse_ws :: "string \<Rightarrow> string" where
  \<comment> \<open>\<^verbatim>\<open>.replace(/\s+/g, ' ')\<close>\<close>
  "collapse_ws [] = []"
| "collapse_ws (c # cs) =
     (if is_space c then CHR '' '' # collapse_ws (dropWhile is_space cs)
      else c # collapse_ws cs)"
  by pat_completeness auto
termination
  by (relation "measure length") (auto simp: le_imp_less_Suc length_dropWhile_le)

definition sanitizeText :: "string \<Rightarrow> string" where
  "sanitizeText text_in =
     (if text_in = [] then []
      else trim (collapse_ws (replace_nonalpha (replace_urls (toLowerCase text_in)))))"

definition tokenize :: "string \<Rightarrow> string list" where
  "tokenize text_in =
     (let clean = sanitizeText text_in
      in if clean = [] then []
         else filter (\<lambda>w. w \<noteq> [] \<and> w \<notin> set ENGLISH_STOPWORDS) (split_char CHR '' '' clean))"

section \<open>part\_001: the aggregation\<close>

text \<open>
  A parsed CSV row: every column is a string or missing (\<^verbatim>\<open>undefined\<close>). The fields are
  the columns the code reads: \<^verbatim>\<open>review\<close>, \<^verbatim>\<open>text\<close>, \<^verbatim>\<open>content\<close>,
  \<^verbatim>\<open>sentiment\<close> and \<^verbatim>\<open>label\<close>.
\<close>

record row =
  row_review :: "string option"
  row_text :: "string option"
  row_content :: "string option"
  row_sentiment :: "string option"
  row_label :: "string option"

definition nullish :: "'a option \<Rightarrow> 'a option \<Rightarrow> 'a option" where
  \<comment> \<open>\<^verbatim>\<open>a ?? b\<close>\<close>
  "nullish a b = (case a of Some x \<Rightarrow> Some x | None \<Rightarrow> b)"

definition nullish_or :: "'a option \<Rightarrow> 'a \<Rightarrow> 'a" where
  \<comment> \<open>\<^verbatim>\<open>a ?? d\<close> with a default \<open>d\<close> that is never missing\<close>
  "nullish_or a d = (case a of Some x \<Rightarrow> x | None \<Rightarrow> d)"

text \<open>
  A number computed by a division: a rational (rounding to a double is not modelled),
  \<^verbatim>\<open>NaN\<close> for 0/0 and \<^verbatim>\<open>Infinity\<close> for a positive count divided by 0.
\<close>

datatype jsnum = Num rat | NaN | Infinity

definition js_div :: "nat \<Rightarrow> nat \<Rightarrow> jsnum" where
  "js_div a b = (if b = 0 then (if a = 0 then NaN else Infinity) else Num (of_nat a / of_nat b))"

text \<open>
  A \<^verbatim>\<open>Map\<close> is the list of its entries in insertion order: \<^verbatim>\<open>set\<close> on a key of the map
  keeps the key's place, \<^verbatim>\<open>set\<close> on a new key appends it.
\<close>

type_synonym freq_map = "(string \<times> nat) list"

definition map_get :: "freq_map \<Rightarrow> string \<Rightarrow> nat option" where
  "map_get m k = map_of m k"

fun map_set :: "freq_map \<Rightarrow> string \<Rightarrow> nat \<Rightarrow> freq_map" where
  "map_set [] k v = [(k, v)]"
| "map_set ((k', v') # m) k v = (if k' = k then (k, v) # m else (k', v') # map_set m k v)"

definition or_zero :: "nat option \<Rightarrow> nat" where
  \<comment> \<open>\<^verbatim>\<open>x || 0\<close> for a count or \<^verbatim>\<open>undefined\<close>\<close>
  "or_zero x = (case x of None \<Rightarrow> 0 | Some v \<Rightarrow> if v = 0 then 0 else v)"

definition count_tokens :: "freq_map \<Rightarrow> string list \<Rightarrow> freq_map" where
  \<comment> \<open>\<^verbatim>\<open>for (const t of tokens) freq.set(t, (freq.get(t) || 0) + 1)\<close>\<close>
  "count_tokens freq tokens = foldl (\<lambda>m t. map_set m t (or_zero (map_get m t) + 1)) freq tokens"

text \<open>
  The object \<^verbatim>\<open>result\<close> of \<^verbatim>\<open>computeMetrics\<close>; its field \<^verbatim>\<open>total\<close> is
  \<open>total_rows\<close> here. The returned object adds the three averages.
\<close>

record result =
  total_rows :: nat
  lengthsOverall :: "nat list"
  lengthsPos :: "nat list"
  lengthsNeg :: "nat list"
  posCount :: nat
  negCount :: nat
  posFreq :: freq_map
  negFreq :: freq_map

record metrics = result +
  avgOverall :: jsnum
  avgPos :: jsnum
  avgNeg :: jsnum

definition review_of :: "row \<Rightarrow> string" where
  \<comment> \<open>\<^verbatim>\<open>row.review ?? row.text ?? row.content ?? ''\<close>\<close>
  "review_of r = nullish_or (nullish (nullish (row_review r) (row_text r)) (row_content r)) []"

definition sentiment_of :: "row \<Rightarrow> string" where
  \<comment> \<open>\<^verbatim>\<open>String(row.sentiment ?? row.label ?? '').toLowerCase()\<close>\<close>
  "sentiment_of r = toLowerCase (nullish_or (nullish (row_sentiment r) (row_label r)) [])"

definition computeMetrics_row :: "result \<Rightarrow> row \<Rightarrow> result" where
  \<comment> \<open>the body of the loop over the rows\<close>
  "computeMetrics_row res r =
     (let review = review_of r;
          sentiment = sentiment_of r;
          tokens = tokenize review;
          len = length tokens;
          res1 = res\<lparr>lengthsOverall := lengthsOverall res @ [len]\<rparr>
      in if sentiment = ''positive'' \<or> sentiment = ''pos'' then
           res1\<lparr>posCount := posCount res1 + 1,
                lengthsPos := lengthsPos res1 @ [len],
                posFreq := count_tokens (posFreq res1) tokens\<rparr>
         else if sentiment = ''negative'' \<or> sentiment = ''neg'' then
           res1\<lparr>negCount := negCount res1 + 1,
                lengthsNeg := lengthsNeg res1 @ [len],
                negFreq := count_tokens (negFreq res1) tokens\<rparr>
         else res1)"

definition avg :: "nat list \<Rightarrow> jsnum" where
  \<comment> \<open>\<^verbatim>\<open>arr => (arr.length ? (arr.reduce((a,b)=>a+b,0) / arr.length) : 0)\<close>\<close>
  "avg arr = (if length arr \<noteq> 0 then js_div (foldl (+) 0 arr) (length arr) else Num 0)"

definition computeMetrics :: "row list \<Rightarrow> metrics" where
  "computeMetrics rows =
     (let res = foldl computeMetrics_row
                  \<lparr>total_rows = length rows, lengthsOverall = [], lengthsPos = [],
                   lengthsNeg = [], posCount = 0, negCount = 0, posFreq = [], negFreq = []\<rparr>
                  rows
      in result.extend res
           \<lparr>avgOverall = avg (lengthsOverall res),
            avgPos = avg (lengthsPos res),
            avgNeg = avg (lengthsNeg res)\<rparr>)"

definition slice0 :: "'a list \<Rightarrow> int \<Rightarrow> 'a list" where
  \<comment> \<open>\<^verbatim>\<open>arr.slice(0, n)\<close>: a negative end counts from the end of the array\<close>
  "slice0 arr n = (if n < 0 then take (nat (int (length arr) + n)) arr else take (nat n) arr)"

definition topEntries :: "freq_map \<Rightarrow> int \<Rightarrow> (string \<times> nat) list" where
  \<comment> \<open>\<^verbatim>\<open>arr.sort((a,b) => b[1] - a[1])\<close> is a stable sort by falling count\<close>
  "topEntries m n = slice0 (sort_key (\<lambda>e. - int (snd e)) m) n"

definition parseCsvText_rows :: "row list \<Rightarrow> row list" where
  \<comment> \<open>the rows \<^verbatim>\<open>parseCsvText\<close> keeps: each mapped to its review and sentiment, then
      filtered by \<^verbatim>\<open>typeof r.review === 'string' && r.review.length > 0 && r.sentiment\<close>\<close>
  "parseCsvText_rows rows_in =
     filter (\<lambda>r. (case row_review r of None \<Rightarrow> False | Some s \<Rightarrow> length s > 0) \<and>
                 (case row_sentiment r of None \<Rightarrow> False | Some s \<Rightarrow> s \<noteq> []))
       (map (\<lambda>r. \<lparr>row_review = nullish (nullish (row_review r) (row_text r)) (row_content r),
                   row_text = None, row_content = None,
                   row_sentiment = nullish (row_sentiment r) (row_label r),
                   row_label = None\<rparr>) rows_in)"

definition parseCsvText :: "row list \<Rightarrow> metrics option" where
  \<comment> \<open>\<open>None\<close>: no usable rows, the status line shows an error and nothing is computed\<close>
  "parseCsvText rows_in =
     (let rows = parseCsvText_rows rows_in
      in if rows = [] then None else Some (computeMetrics rows))"

section \<open>part\_000: the React component\<close>

text \<open>
  The interfaces \<^verbatim>\<open>Message\<close> (fields \<^verbatim>\<open>text\<close>, \<^verbatim>\<open>sentiment\<close>), \<^verbatim>\<open>WordStats\<close>
  (its field \<^verbatim>\<open>total\<close> is \<open>total_count\<close> here) and \<^verbatim>\<open>SentimentStats\<close>.
\<close>

record message =
  msg_text :: string
  msg_sentiment :: string

record wordStats =
  word :: string
  positive :: nat
  negative :: nat
  total_count :: nat

record sentimentStats =
  positiveCount :: nat
  negativeCount :: nat
  avgLengthPositive :: jsnum
  avgLengthNegative :: jsnum
  topWords :: "wordStats list"

definition loadData :: "row list \<Rightarrow> message list" where
  \<comment> \<open>\<^verbatim>\<open>results.data.filter(row => row.review && row.sentiment).map(...)\<close>: only the
      columns \<^verbatim>\<open>review\<close> and \<^verbatim>\<open>sentiment\<close> are read\<close>
  "loadData rows_in =
     map (\<lambda>r. \<lparr>msg_text = toLowerCase (the (row_review r)),
                 msg_sentiment = toLowerCase (the (row_sentiment r))\<rparr>)
       (filter (\<lambda>r. (case row_review r of None \<Rightarrow> False | Some s \<Rightarrow> s \<noteq> []) \<and>
                   (case row_sentiment r of None \<Rightarrow> False | Some s \<Rightarrow> s \<noteq> []))
          rows_in)"

function split_ws :: "string \<Rightarrow> string list" where
  \<comment> \<open>\<^verbatim>\<open>s.split(/\s+/)\<close>: empty pieces are kept at the two ends\<close>
  "split_ws [] = [[]]"
| "split_ws (c # cs) =
     (if is_space c then [] # split_ws (dropWhile is_space cs)
      else (case split_ws cs of
              [] \<Rightarrow> [[c]]
            | w # ws \<Rightarrow> (c # w) # ws))"
  by pat_completeness auto
termination
  by (relation "measure length") (auto simp: le_imp_less_Suc length_dropWhile_le)

definition wordSplit :: "nat \<Rightarrow> string \<Rightarrow> string list" where
  \<comment> \<open>\<^verbatim>\<open>text.replace(/[^\w\s]/g, '').split(/\s+/).filter(word => word.length >= min)\<close>\<close>
  "wordSplit appliedMinWordLength txt =
     filter (\<lambda>w. length w \<ge> appliedMinWordLength)
       (split_ws (filter (\<lambda>c. is_word c \<or> is_space c) txt))"

text \<open>
  \<^verbatim>\<open>wordFrequency\<close> is a plain object created by \<^verbatim>\<open>{}\<close>: the list of its own
  properties in creation order, and behind it the properties every object inherits from
  \<^verbatim>\<open>Object.prototype\<close>, all of them truthy.
\<close>

type_synonym word_table = "(string \<times> wordStats) list"

definition objectPrototypeKeys :: "string list" where
  "objectPrototypeKeys =
   [''constructor'', ''__defineGetter__'', ''__defineSetter__'', ''hasOwnProperty'',
    ''__lookupGetter__'', ''__lookupSetter__'', ''isPrototypeOf'', ''propertyIsEnumerable'',
    ''toString'', ''valueOf'', ''__proto__'', ''toLocaleString'']"

datatype 'v property = Own 'v | Inherited | Undefined

definition obj_get :: "word_table \<Rightarrow> string \<Rightarrow> wordStats property" where
  \<comment> \<open>\<^verbatim>\<open>wordFrequency[word]\<close>\<close>
  "obj_get tbl w =
     (case map_of tbl w of
        Some v \<Rightarrow> Own v
      | None \<Rightarrow> if w \<in> set objectPrototypeKeys then Inherited else Undefined)"

fun obj_put :: "word_table \<Rightarrow> string \<Rightarrow> wordStats \<Rightarrow> word_table" where
  \<comment> \<open>a write to an own property (in place), or the creation of a new one (last)\<close>
  "obj_put [] k v = [(k, v)]"
| "obj_put ((k', v') # tbl) k v = (if k' = k then (k, v) # tbl else (k', v') # obj_put tbl k v)"

definition count_word :: "string \<Rightarrow> word_table \<Rightarrow> string \<Rightarrow> word_table" where
  \<comment> \<open>the body of \<^verbatim>\<open>words.forEach\<close>. When \<^verbatim>\<open>wordFrequency[word]\<close> is an inherited
      property, no entry is created and the increments land on the inherited object.\<close>
  "count_word sentiment tbl w =
     (let tbl1 = (case obj_get tbl w of
                   Undefined \<Rightarrow> obj_put tbl w \<lparr>word = w, positive = 0, negative = 0, total_count = 0\<rparr>
                 | _ \<Rightarrow> tbl)
      in case obj_get tbl1 w of
           Own st \<Rightarrow>
             (let st1 = (if sentiment = ''positive''
                         then st\<lparr>positive := positive st + 1\<rparr>
                         else st\<lparr>negative := negative st + 1\<rparr>)
              in obj_put tbl1 w (st1\<lparr>total_count := total_count st1 + 1\<rparr>))
         | _ \<Rightarrow> tbl1)"

definition is_digit :: "char \<Rightarrow> bool" where
  "is_digit c \<longleftrightarrow> 48 \<le> (of_char c :: nat) \<and> (of_char c :: nat) \<le> 57"

definition digits_value :: "string \<Rightarrow> int" where
  \<comment> \<open>the number a string of decimal digits denotes\<close>
  "digits_value s = foldl (\<lambda>n c. 10 * n + (of_char c - 48)) 0 s"

definition is_array_index :: "string \<Rightarrow> bool" where
  \<comment> \<open>a canonical decimal numeral below \<open>2\<^sup>3\<^sup>2 - 1\<close>\<close>
  "is_array_index s \<longleftrightarrow>
     s \<noteq> [] \<and> list_all is_digit s \<and> (s = ''0'' \<or> hd s \<noteq> CHR ''0'') \<and>
     digits_value s < 4294967295"

definition object_values :: "word_table \<Rightarrow> wordStats list" where
  \<comment> \<open>\<^verbatim>\<open>Object.values\<close>: the array-index keys first, in rising numeric order, then
      the other keys in creation order\<close>
  "object_values tbl =
     map snd (sort_key (\<lambda>e. digits_value (fst e)) (filter (\<lambda>e. is_array_index (fst e)) tbl)
              @ filter (\<lambda>e. \<not> is_array_index (fst e)) tbl)"

definition wordFrequency :: "nat \<Rightarrow> message list \<Rightarrow> word_table" where
  "wordFrequency appliedMinWordLength messages =
     foldl (\<lambda>tbl msg. foldl (count_word (msg_sentiment msg)) tbl
                        (wordSplit appliedMinWordLength (msg_text msg)))
       [] messages"

definition avgLength :: "message list \<Rightarrow> jsnum" where
  \<comment> \<open>\<^verbatim>\<open>ms.length > 0 ? ms.reduce((sum, msg) => sum + msg.text.length, 0) / ms.length : 0\<close>\<close>
  "avgLength ms =
     (if length ms > 0
      then js_div (foldl (\<lambda>sum msg. sum + length (msg_text msg)) 0 ms) (length ms)
      else Num 0)"

definition analyzeSentiment :: "nat \<Rightarrow> message list \<Rightarrow> sentimentStats" where
  "analyzeSentiment appliedMinWordLength messages =
     (let positiveMessages = filter (\<lambda>msg. msg_sentiment msg = ''positive'') messages;
          negativeMessages = filter (\<lambda>msg. msg_sentiment msg = ''negative'') messages;
          tbl = wordFrequency appliedMinWordLength messages
      in \<lparr>positiveCount = length positiveMessages,
          negativeCount = length negativeMessages,
          avgLengthPositive = avgLength positiveMessages,
          avgLengthNegative = avgLength negativeMessages,
          topWords = take 20 (sort_key (\<lambda>st. - int (total_count st)) (object_values tbl))\<rparr>)"

section \<open>The association scorer\<close>

text \<open>
  Modelled from the spec: the association scorer (the log-odds score of a term) is computed
  by no source file of the repository that is at hand; the definition follows the spec's
  section 4.3 word for word, over the reals.
\<close>

definition logOdds :: "real \<Rightarrow> nat \<Rightarrow> nat \<Rightarrow> nat \<Rightarrow> nat \<Rightarrow> real" where
  "logOdds \<alpha> freqPos_t freqNeg_t totalPosTokens totalNegTokens =
     (let a = real freqPos_t + \<alpha>;
          b = (real totalPosTokens - real freqPos_t) + \<alpha>;
          c = real freqNeg_t + \<alpha>;
          d = (real totalNegTokens - real freqNeg_t) + \<alpha>
      in ln (a / b) - ln (c / d))"

section \<open>Specification-level definitions\<close>

text \<open>
  The maximal runs of letters \<^verbatim>\<open>a-z\<close> of a string, left to right: what the spec calls
  the tokens of a text, every other character being a word boundary.
\<close>

function letter_runs :: "string \<Rightarrow> string list" where
  "letter_runs [] = []"
| "letter_runs (c # cs) =
     (if is_az c then (c # takeWhile is_az cs) # letter_runs (dropWhile is_az cs)
      else letter_runs cs)"
  by pat_completeness auto
termination
  by (relation "measure length") (auto simp: le_imp_less_Suc length_dropWhile_le)

fun split_when :: "(char \<Rightarrow> bool) \<Rightarrow> string \<Rightarrow> string list" where
  \<comment> \<open>the pieces between the characters that satisfy \<open>P\<close>, empty pieces kept\<close>
  "split_when P [] = [[]]"
| "split_when P (c # cs) =
     (if P c then [] # split_when P cs
      else (case split_when P cs of
              [] \<Rightarrow> [[c]]
            | w # ws \<Rightarrow> (c # w) # ws))"

definition words_by :: "(char \<Rightarrow> bool) \<Rightarrow> string \<Rightarrow> string list" where
  \<comment> \<open>the non-empty pieces between the characters that satisfy \<open>P\<close>\<close>
  "words_by P s = filter (\<lambda>w. w \<noteq> []) (split_when P s)"

text \<open>
  The spec's reading of a row: the first present column among the accepted names, and the
  class of a label: lower-cased, \<^verbatim>\<open>positive|pos\<close> is Positive, \<^verbatim>\<open>negative|neg\<close> is
  Negative, anything else is excluded.
\<close>

datatype sentiment_class = Positive | Negative

definition first_present :: "'a option list \<Rightarrow> 'a option" where
  "first_present cols = (case filter (\<lambda>c. c \<noteq> None) cols of [] \<Rightarrow> None | c # _ \<Rightarrow> c)"

definition classify :: "string \<Rightarrow> sentiment_class option" where
  "classify lab =
     (let l = toLowerCase lab
      in if l = ''positive'' \<or> l = ''pos'' then Some Positive
         else if l = ''negative'' \<or> l = ''neg'' then Some Negative
         else None)"

definition spec_review :: "row \<Rightarrow> string" where
  "spec_review r =
     (case first_present [row_review r, row_text r, row_content r] of
        Some s \<Rightarrow> s | None \<Rightarrow> [])"

definition spec_label :: "row \<Rightarrow> string" where
  "spec_label r =
     (case first_present [row_sentiment r, row_label r] of
        Some s \<Rightarrow> s | None \<Rightarrow> [])"

definition row_class :: "row \<Rightarrow> sentiment_class option" where
  "row_class r = classify (spec_label r)"

definition row_tokens :: "row \<Rightarrow> string list" where
  \<comment> \<open>the tokens of the row's review\<close>
  "row_tokens r = tokenize (review_of r)"

definition of_class :: "sentiment_class \<Rightarrow> row list \<Rightarrow> row list" where
  \<comment> \<open>the rows of one class, in their order\<close>
  "of_class cl rows = filter (\<lambda>r. row_class r = Some cl) rows"

fun interior_nonempty :: "string list \<Rightarrow> bool" where
  \<comment> \<open>every piece but the last is non-empty\<close>
  "interior_nonempty [] = True"
| "interior_nonempty [q] = True"
| "interior_nonempty (q # r # rs) = (q \<noteq> [] \<and> interior_nonempty (r # rs))"

section \<open>Character classes and splitting\<close>

lemma is_az_not_space: "is_az c \<Longrightarrow> \<not> is_space c"
  by (auto simp: is_az_def is_space_def)

lemma is_az_to_lower: "is_az c \<Longrightarrow> to_lower c = c"
  by (auto simp: is_az_def to_lower_def Let_def)

lemma space_to_lower: "to_lower (CHR '' '') = CHR '' ''"
  by (simp add: to_lower_def)

lemma is_space_blank: "is_space (CHR '' '')"
  by (simp add: is_space_def)

lemma split_when_nonempty: "split_when P s \<noteq> []"
  by (induction s) (auto split: list.splits)

lemma split_when_unfold:
  "split_when P (c # cs) =
     (if P c then [] # split_when P cs
      else (c # hd (split_when P cs)) # tl (split_when P cs))"
  using split_when_nonempty [of P cs] by (cases "split_when P cs") auto

lemma split_char_split_when: "split_char sep s = split_when (\<lambda>c. c = sep) s"
  by (induction s) auto

lemma split_when_cong: "(\<And>c. c \<in> set s \<Longrightarrow> P c = Q c) \<Longrightarrow> split_when P s = split_when Q s"
  by (induction s) auto

lemma hd_split_when: "hd (split_when P s) = takeWhile (\<lambda>c. \<not> P c) s"
  by (induction s) (auto simp: split_when_unfold simp del: split_when.simps(2))

lemma split_when_pieces: "w \<in> set (split_when P s) \<Longrightarrow> set w \<subseteq> {c \<in> set s. \<not> P c}"
proof (induction s arbitrary: w)
  case Nil
  then show ?case by simp
next
  case (Cons a s)
  show ?case
  proof (cases "P a")
    case True
    with Cons show ?thesis by auto
  next
    case False
    have hd_in: "set (hd (split_when P s)) \<subseteq> {c \<in> set s. \<not> P c}"
      unfolding hd_split_when by (auto dest: set_takeWhileD)
    have tl_in: "set (tl (split_when P s)) \<subseteq> set (split_when P s)"
      using split_when_nonempty [of P s] by (cases "split_when P s") auto
    from Cons.prems False
    consider "w = a # hd (split_when P s)" | "w \<in> set (tl (split_when P s))"
      by (auto simp: split_when_unfold simp del: split_when.simps(2))
    then show ?thesis
    proof cases
      case 1
      with hd_in False show ?thesis by auto
    next
      case 2
      with tl_in have "w \<in> set (split_when P s)" by blast
      from Cons.IH [OF this] show ?thesis by auto
    qed
  qed
qed

lemma collapse_ws_chars:
  "c \<in> set (collapse_ws s) \<Longrightarrow> c = CHR '' '' \<or> (c \<in> set s \<and> \<not> is_space c)"
  by (induction s rule: collapse_ws.induct) (auto split: if_splits dest: set_dropWhileD)

lemma trim_chars: "c \<in> set (trim s) \<Longrightarrow> c \<in> set s"
proof -
  assume "c \<in> set (trim s)"
  then have "c \<in> set (dropWhile is_space (rev (dropWhile is_space s)))"
    by (simp add: trim_def)
  then have "c \<in> set (rev (dropWhile is_space s))" by (rule set_dropWhileD)
  then have "c \<in> set (dropWhile is_space s)" by simp
  then show "c \<in> set s" by (rule set_dropWhileD)
qed

lemma replace_nonalpha_chars: "c \<in> set (replace_nonalpha s) \<Longrightarrow> is_az c \<or> is_space c"
  by (auto simp: replace_nonalpha_def is_space_blank)

lemma sanitizeText_chars: "c \<in> set (sanitizeText x) \<Longrightarrow> is_az c \<or> c = CHR '' ''"
  by (auto simp: sanitizeText_def split: if_splits
        dest!: trim_chars collapse_ws_chars dest: replace_nonalpha_chars)

lemma tokenize_token:
  assumes "t \<in> set (tokenize x)"
  shows "t \<noteq> []" and "\<And>c. c \<in> set t \<Longrightarrow> is_az c" and "t \<notin> set ENGLISH_STOPWORDS"
proof -
  from assms have ne: "sanitizeText x \<noteq> []"
    and t: "t \<in> set (split_char CHR '' '' (sanitizeText x))"
    and t1: "t \<noteq> []" and t2: "t \<notin> set ENGLISH_STOPWORDS"
    by (auto simp: tokenize_def Let_def split: if_splits)
  show "t \<noteq> []" by (rule t1)
  show "t \<notin> set ENGLISH_STOPWORDS" by (rule t2)
  fix c assume "c \<in> set t"
  with t have "c \<in> set (sanitizeText x)" "c \<noteq> CHR '' ''"
    using split_when_pieces [of t "\<lambda>c. c = CHR '' ''" "sanitizeText x"]
    by (auto simp: split_char_split_when)
  then show "is_az c" using sanitizeText_chars by blast
qed

section \<open>The tokenizer of part\_001 returns the runs of letters\<close>

lemma split_when_hd_tl: "split_when P s = hd (split_when P s) # tl (split_when P s)"
  using split_when_nonempty [of P s] by simp

lemma words_by_sep: "P c \<Longrightarrow> words_by P (c # cs) = words_by P cs"
  by (simp add: words_by_def)

lemma words_by_dropWhile: "words_by P (dropWhile P s) = words_by P s"
  by (induction s) (simp_all add: words_by_sep)

lemma words_by_hd_tl:
  "words_by P s = filter (\<lambda>w. w \<noteq> []) [hd (split_when P s)]
                  @ filter (\<lambda>w. w \<noteq> []) (tl (split_when P s))"
  unfolding words_by_def by (subst split_when_hd_tl) simp

lemma collapse_ws_split:
  "hd (split_when is_space (collapse_ws s)) = hd (split_when is_space s) \<and>
   filter (\<lambda>w. w \<noteq> []) (tl (split_when is_space (collapse_ws s)))
     = filter (\<lambda>w. w \<noteq> []) (tl (split_when is_space s))"
proof (induction s rule: collapse_ws.induct)
  case 1
  show ?case by simp
next
  case (2 c cs)
  show ?case
  proof (cases "is_space c")
    case True
    from 2(1) [OF True]
    have "words_by is_space (collapse_ws (dropWhile is_space cs))
            = words_by is_space (dropWhile is_space cs)"
      by (simp add: words_by_hd_tl)
    then have "words_by is_space (collapse_ws (dropWhile is_space cs)) = words_by is_space cs"
      by (simp add: words_by_dropWhile)
    with True show ?thesis
      by (simp add: is_space_blank words_by_def)
  next
    case False
    with 2(2) [OF False] show ?thesis
      by (simp add: split_when_unfold del: split_when.simps(2))
  qed
qed

lemma words_by_collapse_ws: "words_by is_space (collapse_ws s) = words_by is_space s"
  using collapse_ws_split [of s] by (simp add: words_by_hd_tl)

lemma split_when_trailing:
  "list_all P seps \<Longrightarrow> split_when P (s @ seps) = split_when P s @ replicate (length seps) []"
proof (induction s)
  case Nil
  then show ?case by (induction seps) auto
next
  case (Cons a s)
  then show ?case
    using split_when_nonempty [of P s] by (cases "split_when P s") auto
qed

lemma words_by_trailing: "list_all P seps \<Longrightarrow> words_by P (s @ seps) = words_by P s"
  by (simp add: words_by_def split_when_trailing)

lemma words_by_drop_trailing: "words_by P (rev (dropWhile P (rev s))) = words_by P s"
proof -
  have "s = rev (dropWhile P (rev s)) @ rev (takeWhile P (rev s))"
    by (metis rev_append rev_rev_ident takeWhile_dropWhile_id)
  moreover have "list_all P (rev (takeWhile P (rev s)))"
    by (auto simp: list_all_iff dest: set_takeWhileD)
  ultimately show ?thesis
    using words_by_trailing [of P "rev (takeWhile P (rev s))" "rev (dropWhile P (rev s))"]
    by simp
qed

lemma words_by_trim: "words_by is_space (trim s) = words_by is_space s"
  by (simp add: trim_def words_by_drop_trailing words_by_dropWhile)

lemma split_when_replace_nonalpha:
  "split_when is_space (replace_nonalpha s) = split_when (\<lambda>c. \<not> is_az c) s"
  by (induction s) (auto simp: replace_nonalpha_def is_space_blank is_az_not_space)

lemma blank_only_space:
  assumes "c \<in> set (trim (collapse_ws s))"
  shows "is_space c \<longleftrightarrow> c = CHR '' ''"
  using collapse_ws_chars [of c s] trim_chars [OF assms] is_space_blank by auto

lemma tl_split_when_dropWhile:
  "filter (\<lambda>w. w \<noteq> []) (tl (split_when P s))
     = words_by P (dropWhile (\<lambda>c. \<not> P c) s)"
  by (induction s) (simp_all add: words_by_def split_when_unfold del: split_when.simps(2))

lemma words_by_letter_runs: "words_by (\<lambda>c. \<not> is_az c) s = letter_runs s"
proof (induction s rule: letter_runs.induct)
  case 1
  show ?case by (simp add: words_by_def)
next
  case (2 c cs)
  show ?case
  proof (cases "is_az c")
    case True
    have "words_by (\<lambda>c. \<not> is_az c) (c # cs)
            = (c # hd (split_when (\<lambda>c. \<not> is_az c) cs))
              # filter (\<lambda>w. w \<noteq> []) (tl (split_when (\<lambda>c. \<not> is_az c) cs))"
      using True by (simp add: words_by_def split_when_unfold del: split_when.simps(2))
    also have "\<dots> = (c # takeWhile is_az cs) # words_by (\<lambda>c. \<not> is_az c) (dropWhile is_az cs)"
      by (simp add: hd_split_when tl_split_when_dropWhile)
    finally show ?thesis using True 2(1) by simp
  next
    case False
    with 2(2) show ?thesis by (simp add: words_by_sep)
  qed
qed

lemma tokenize_letter_runs:
  "tokenize x = filter (\<lambda>w. w \<notin> set ENGLISH_STOPWORDS) (letter_runs (replace_urls (toLowerCase x)))"
proof -
  define u where "u = replace_urls (toLowerCase x)"
  define clean where "clean = trim (collapse_ws (replace_nonalpha u))"
  have "split_char CHR '' '' clean = split_when is_space clean"
    unfolding split_char_split_when clean_def
    by (rule split_when_cong) (simp add: blank_only_space)
  then have "filter (\<lambda>w. w \<noteq> []) (split_char CHR '' '' clean) = words_by is_space clean"
    by (simp add: words_by_def)
  also have "\<dots> = words_by is_space (replace_nonalpha u)"
    by (simp add: clean_def words_by_trim words_by_collapse_ws)
  also have "\<dots> = letter_runs u"
    by (simp add: words_by_def split_when_replace_nonalpha flip: words_by_letter_runs)
  finally have runs: "filter (\<lambda>w. w \<noteq> []) (split_char CHR '' '' clean) = letter_runs u" .
  have filt: "filter (\<lambda>w. w \<noteq> [] \<and> w \<notin> set ENGLISH_STOPWORDS) l
      = filter (\<lambda>w. w \<notin> set ENGLISH_STOPWORDS) (filter (\<lambda>w. w \<noteq> []) l)" for l
    by (induction l) auto
  show ?thesis
  proof (cases "x = []")
    case True
    then show ?thesis by (simp add: tokenize_def sanitizeText_def toLowerCase_def)
  next
    case False
    then have san: "sanitizeText x = clean"
      by (simp add: sanitizeText_def clean_def u_def)
    show ?thesis
    proof (cases "clean = []")
      case True
      with runs have "letter_runs u = []" by simp
      with True san show ?thesis by (simp add: tokenize_def u_def)
    next
      case False
      with san runs show ?thesis by (simp add: tokenize_def filt u_def)
    qed
  qed
qed

section \<open>Tokenizing the joined tokens\<close>

lemma url_match_no_colon: "CHR '':'' \<notin> set s \<Longrightarrow> url_match s = None"
proof -
  assume nc: "CHR '':'' \<notin> set s"
  have "take 8 s \<noteq> ''https://''"
  proof
    assume "take 8 s = ''https://''"
    then have "CHR '':'' \<in> set (take 8 s)" by simp
    then show False using nc by (blast dest: in_set_takeD)
  qed
  moreover have "take 7 s \<noteq> ''http://''"
  proof
    assume "take 7 s = ''http://''"
    then have "CHR '':'' \<in> set (take 7 s)" by simp
    then show False using nc by (blast dest: in_set_takeD)
  qed
  ultimately show ?thesis by (simp add: url_match_def)
qed

lemma replace_urls_no_colon: "CHR '':'' \<notin> set s \<Longrightarrow> replace_urls s = s"
  by (induction s) (simp_all add: url_match_no_colon)

lemma toLowerCase_clean:
  "(\<And>c. c \<in> set s \<Longrightarrow> is_az c \<or> c = CHR '' '') \<Longrightarrow> toLowerCase s = s"
proof -
  assume h: "\<And>c. c \<in> set s \<Longrightarrow> is_az c \<or> c = CHR '' ''"
  have "to_lower c = c" if "c \<in> set s" for c
    using h [OF that] by (auto simp: is_az_to_lower space_to_lower)
  then show ?thesis by (simp add: toLowerCase_def map_idI)
qed

lemma letter_runs_word_append:
  "list_all is_az w \<Longrightarrow> w \<noteq> [] \<Longrightarrow> (case s of [] \<Rightarrow> True | c # _ \<Rightarrow> \<not> is_az c)
     \<Longrightarrow> letter_runs (w @ s) = w # letter_runs s"
proof -
  assume w: "list_all is_az w" "w \<noteq> []" and s: "case s of [] \<Rightarrow> True | c # _ \<Rightarrow> \<not> is_az c"
  from w obtain a v where wv: "w = a # v" by (cases w) auto
  with w have a: "is_az a" and v: "list_all is_az v" by auto
  have tk: "takeWhile is_az (v @ s) = v" using v s
    by (induction v) (auto split: list.splits)
  have dr: "dropWhile is_az (v @ s) = s" using v s
    by (induction v) (auto split: list.splits)
  show ?thesis using a by (simp add: wv tk dr)
qed

lemma join_chars:
  "c \<in> set (join sep ts) \<Longrightarrow> c \<in> set sep \<or> (\<exists>t \<in> set ts. c \<in> set t)"
  by (induction sep ts rule: join.induct) auto

lemma letter_runs_join:
  "(\<And>t. t \<in> set ts \<Longrightarrow> t \<noteq> [] \<and> list_all is_az t) \<Longrightarrow> letter_runs (join '' '' ts) = ts"
proof (induction "'' ''" ts rule: join.induct)
  case 1
  show ?case by simp
next
  case (2 w)
  then have "letter_runs (w @ []) = w # letter_runs []"
    by (intro letter_runs_word_append) auto
  then show ?case by simp
next
  case (3 w v ws)
  have "\<not> is_az (CHR '' '')" by (simp add: is_az_def)
  then have "letter_runs (w @ (CHR '' '' # join '' '' (v # ws)))
          = w # letter_runs (CHR '' '' # join '' '' (v # ws))"
    using 3(2) [of w] by (intro letter_runs_word_append) auto
  moreover have "letter_runs (CHR '' '' # join '' '' (v # ws)) = letter_runs (join '' '' (v # ws))"
    using \<open>\<not> is_az (CHR '' '')\<close> by simp
  moreover have "letter_runs (join '' '' (v # ws)) = v # ws"
    using 3 by simp
  ultimately show ?case by simp
qed

lemma tokenize_join_tokens:
  assumes "\<And>t. t \<in> set ts \<Longrightarrow> t \<noteq> [] \<and> list_all is_az t \<and> t \<notin> set ENGLISH_STOPWORDS"
  shows "tokenize (join '' '' ts) = ts"
proof -
  have chars: "is_az c \<or> c = CHR '' ''" if "c \<in> set (join '' '' ts)" for c
    using join_chars [OF that] assms by (auto simp: list_all_iff)
  have nocolon: "CHR '':'' \<notin> set (join '' '' ts)"
  proof
    assume "CHR '':'' \<in> set (join '' '' ts)"
    from chars [OF this] show False by (simp add: is_az_def)
  qed
  have "toLowerCase (join '' '' ts) = join '' '' ts"
    by (rule toLowerCase_clean) (rule chars)
  moreover have "replace_urls (join '' '' ts) = join '' '' ts"
    by (rule replace_urls_no_colon) (rule nocolon)
  moreover have "letter_runs (join '' '' ts) = ts"
    by (rule letter_runs_join) (use assms in blast)
  moreover have "filter (\<lambda>w. w \<notin> set ENGLISH_STOPWORDS) ts = ts"
    using assms by (simp add: filter_id_conv)
  ultimately show ?thesis by (simp add: tokenize_letter_runs)
qed

lemma tokenize_idem: "tokenize (join '' '' (tokenize x)) = tokenize x"
  by (rule tokenize_join_tokens) (auto simp: list_all_iff dest: tokenize_token)

section \<open>The word split of part\_000\<close>

lemma split_ws_nonempty: "split_ws s \<noteq> []"
  by (induction s rule: split_ws.induct) (auto split: list.splits)

lemma split_ws_unfold:
  "split_ws (c # cs) =
     (if is_space c then [] # split_ws (dropWhile is_space cs)
      else (c # hd (split_ws cs)) # tl (split_ws cs))"
  using split_ws_nonempty [of cs] by (cases "split_ws cs") auto

lemma split_ws_pieces: "w \<in> set (split_ws s) \<Longrightarrow> set w \<subseteq> {c \<in> set s. \<not> is_space c}"
proof (induction s arbitrary: w rule: split_ws.induct)
  case 1
  then show ?case by simp
next
  case (2 c cs)
  note IH = 2(2)
  have hd_tl: "split_ws cs = hd (split_ws cs) # tl (split_ws cs)"
    using split_ws_nonempty [of cs] by simp
  show ?case
  proof (cases "is_space c")
    case True
    with 2(3) have "w = [] \<or> w \<in> set (split_ws (dropWhile is_space cs))" by simp
    then show ?thesis
    proof
      assume "w = []" then show ?thesis by simp
    next
      assume "w \<in> set (split_ws (dropWhile is_space cs))"
      from 2(1) [OF True this] show ?thesis by (auto dest: set_dropWhileD)
    qed
  next
    case False
    with 2(3) consider "w = c # hd (split_ws cs)" | "w \<in> set (tl (split_ws cs))"
      by (auto simp: split_ws_unfold simp del: split_ws.simps(2))
    then show ?thesis
    proof cases
      case 1
      have "hd (split_ws cs) \<in> set (split_ws cs)" using split_ws_nonempty by simp
      from 2(2) [OF False this] 1 False show ?thesis by auto
    next
      case 2
      then have "w \<in> set (split_ws cs)" by (subst hd_tl) simp
      from IH [OF False this] show ?thesis by auto
    qed
  qed
qed

lemma split_ws_word_append:
  "(\<And>c. c \<in> set w \<Longrightarrow> \<not> is_space c) \<Longrightarrow> split_ws (w @ s) = (w @ hd (split_ws s)) # tl (split_ws s)"
proof (induction w)
  case Nil
  show ?case using split_ws_nonempty [of s] by simp
next
  case (Cons a w)
  then show ?case by (simp add: split_ws_unfold del: split_ws.simps(2))
qed

lemma split_ws_word: "(\<And>c. c \<in> set w \<Longrightarrow> \<not> is_space c) \<Longrightarrow> split_ws w = [w]"
  using split_ws_word_append [of w "[]"] by simp

lemma interior_nonempty_Cons:
  "interior_nonempty (x # xs) \<longleftrightarrow> xs = [] \<or> (x \<noteq> [] \<and> interior_nonempty xs)"
  by (cases xs) auto

lemma interior_nonempty_all: "(\<And>w. w \<in> set ws \<Longrightarrow> w \<noteq> []) \<Longrightarrow> interior_nonempty ws"
  by (induction ws) (auto simp: interior_nonempty_Cons)

lemma dropWhile_start: "(case dropWhile P xs of [] \<Rightarrow> True | c # _ \<Rightarrow> \<not> P c)"
  by (induction xs) auto

lemma split_ws_interior:
  "interior_nonempty (tl (split_ws s)) \<and>
   ((case s of [] \<Rightarrow> True | c # _ \<Rightarrow> \<not> is_space c) \<longrightarrow> interior_nonempty (split_ws s))"
proof (induction s rule: split_ws.induct)
  case 1
  show ?case by simp
next
  case (2 c cs)
  show ?case
  proof (cases "is_space c")
    case True
    from 2(1) [OF True] dropWhile_start [of is_space cs]
    have "interior_nonempty (split_ws (dropWhile is_space cs))" by blast
    with True show ?thesis by simp
  next
    case False
    from 2(2) [OF False] have "interior_nonempty (tl (split_ws cs))" by blast
    with False show ?thesis
      by (simp add: split_ws_unfold interior_nonempty_Cons del: split_ws.simps(2))
  qed
qed

lemma join_Cons: "join sep (q # rs) = q @ (if rs = [] then [] else sep @ join sep rs)"
  by (cases rs) auto

lemma split_ws_join:
  "(\<And>w c. w \<in> set (p # qs) \<Longrightarrow> c \<in> set w \<Longrightarrow> \<not> is_space c) \<Longrightarrow> interior_nonempty qs
     \<Longrightarrow> split_ws (join '' '' (p # qs)) = p # qs"
proof (induction qs arbitrary: p)
  case Nil
  then show ?case by (simp add: split_ws_word)
next
  case (Cons q rs)
  have p: "\<And>c. c \<in> set p \<Longrightarrow> \<not> is_space c" using Cons.prems(1) by auto
  have q: "\<And>c. c \<in> set q \<Longrightarrow> \<not> is_space c" using Cons.prems(1) by auto
  let ?J = "join '' '' (q # rs)"
  have start: "dropWhile is_space ?J = ?J"
  proof (cases q)
    case Nil
    with Cons.prems(2) have "rs = []" by (simp add: interior_nonempty_Cons)
    with Nil show ?thesis by simp
  next
    case (Cons a v)
    with q have "\<not> is_space a" by simp
    with Cons show ?thesis by (simp add: join_Cons)
  qed
  have rest: "split_ws ?J = q # rs"
  proof (cases "rs = []")
    case True
    with q show ?thesis by (simp add: split_ws_word)
  next
    case False
    with Cons.prems(2) have "interior_nonempty rs" by (simp add: interior_nonempty_Cons)
    with Cons.IH [of q] Cons.prems(1) show ?thesis by auto
  qed
  have "split_ws (p @ CHR '' '' # ?J) = (p @ hd (split_ws (CHR '' '' # ?J))) # tl (split_ws (CHR '' '' # ?J))"
    by (rule split_ws_word_append) (rule p)
  also have "\<dots> = p # split_ws ?J"
    by (simp add: is_space_blank start)
  finally show ?case using rest by simp
qed

lemma wordSplit_idem: "wordSplit n (join '' '' (wordSplit n x)) = wordSplit n x"
proof -
  define clean where "clean = filter (\<lambda>c. is_word c \<or> is_space c) x"
  define ws where "ws = wordSplit n x"
  have ws: "ws = filter (\<lambda>w. n \<le> length w) (split_ws clean)"
    by (simp add: ws_def wordSplit_def clean_def)
  have piece: "\<not> is_space c \<and> is_word c" if "w \<in> set ws" "c \<in> set w" for w c
    using that split_ws_pieces [of w clean] by (auto simp: ws clean_def)
  have keep: "filter (\<lambda>c. is_word c \<or> is_space c) (join '' '' ws) = join '' '' ws"
  proof -
    have "is_word c \<or> is_space c" if "c \<in> set (join '' '' ws)" for c
      using join_chars [OF that] piece by (auto simp: is_space_blank)
    then show ?thesis by (simp add: filter_id_conv)
  qed
  have long: "filter (\<lambda>w. n \<le> length w) ws = ws" by (simp add: ws)
  have "filter (\<lambda>w. n \<le> length w) (split_ws (join '' '' ws)) = ws"
  proof (cases ws)
    case Nil
    have "n \<noteq> 0"
    proof
      assume "n = 0"
      with ws have "ws = split_ws clean" by simp
      with Nil split_ws_nonempty show False by simp
    qed
    with Nil show ?thesis by simp
  next
    case (Cons p qs)
    have "interior_nonempty qs"
    proof (cases "n = 0")
      case True
      with ws have "ws = split_ws clean" by simp
      with Cons have "qs = tl (split_ws clean)" by (metis list.sel(3))
      then show ?thesis using split_ws_interior [of clean] by simp
    next
      case False
      have "w \<noteq> []" if "w \<in> set qs" for w
      proof -
        from that Cons have "w \<in> set ws" by simp
        with ws have "n \<le> length w" by simp
        with False show ?thesis by auto
      qed
      then show ?thesis by (rule interior_nonempty_all)
    qed
    moreover have "\<And>w c. w \<in> set (p # qs) \<Longrightarrow> c \<in> set w \<Longrightarrow> \<not> is_space c"
      using piece Cons by blast
    ultimately have "split_ws (join '' '' (p # qs)) = p # qs"
      by (intro split_ws_join)
    with Cons long show ?thesis by simp
  qed
  then have "wordSplit n (join '' '' ws) = ws"
    by (simp add: wordSplit_def keep)
  then show ?thesis by (simp add: ws_def)
qed

section \<open>The aggregation of part\_001\<close>

lemma review_of_spec: "review_of r = spec_review r"
  by (simp add: review_of_def spec_review_def first_present_def nullish_def nullish_or_def
        split: option.splits)

lemma sentiment_of_spec: "sentiment_of r = toLowerCase (spec_label r)"
  by (simp add: sentiment_of_def spec_label_def first_present_def nullish_def nullish_or_def
        split: option.splits)

lemma row_class_Positive:
  "row_class r = Some Positive \<longleftrightarrow> sentiment_of r = ''positive'' \<or> sentiment_of r = ''pos''"
  by (simp add: row_class_def classify_def sentiment_of_spec Let_def)

lemma row_class_Negative:
  "row_class r = Some Negative \<longleftrightarrow> sentiment_of r = ''negative'' \<or> sentiment_of r = ''neg''"
  by (auto simp: row_class_def classify_def sentiment_of_spec Let_def)

lemma count_tokens_append: "count_tokens m (a @ b) = count_tokens (count_tokens m a) b"
  by (simp add: count_tokens_def)

lemma count_tokens_Nil: "count_tokens m [] = m"
  by (simp add: count_tokens_def)

lemma computeMetrics_row_cases:
  "computeMetrics_row res r =
     (case row_class r of
        Some Positive \<Rightarrow>
          res\<lparr>lengthsOverall := lengthsOverall res @ [length (row_tokens r)],
              posCount := posCount res + 1,
              lengthsPos := lengthsPos res @ [length (row_tokens r)],
              posFreq := count_tokens (posFreq res) (row_tokens r)\<rparr>
      | Some Negative \<Rightarrow>
          res\<lparr>lengthsOverall := lengthsOverall res @ [length (row_tokens r)],
              negCount := negCount res + 1,
              lengthsNeg := lengthsNeg res @ [length (row_tokens r)],
              negFreq := count_tokens (negFreq res) (row_tokens r)\<rparr>
      | None \<Rightarrow> res\<lparr>lengthsOverall := lengthsOverall res @ [length (row_tokens r)]\<rparr>)"
proof (cases "row_class r")
  case None
  then have "\<not> (sentiment_of r = ''positive'' \<or> sentiment_of r = ''pos'')"
    and "\<not> (sentiment_of r = ''negative'' \<or> sentiment_of r = ''neg'')"
    using row_class_Positive [of r] row_class_Negative [of r] by simp_all
  with None show ?thesis
    by (simp add: computeMetrics_row_def Let_def row_tokens_def)
next
  case (Some cl)
  show ?thesis
  proof (cases cl)
    case Positive
    with Some have "sentiment_of r = ''positive'' \<or> sentiment_of r = ''pos''"
      using row_class_Positive [of r] by simp
    with Some Positive show ?thesis
      by (simp add: computeMetrics_row_def Let_def row_tokens_def)
  next
    case Negative
    with Some have n: "sentiment_of r = ''negative'' \<or> sentiment_of r = ''neg''"
      using row_class_Negative [of r] by simp
    then have "\<not> (sentiment_of r = ''positive'' \<or> sentiment_of r = ''pos'')" by auto
    with n Some Negative show ?thesis
      by (simp add: computeMetrics_row_def Let_def row_tokens_def)
  qed
qed

lemma foldl_computeMetrics_row:
  "foldl computeMetrics_row res rows =
     res\<lparr>lengthsOverall := lengthsOverall res @ map (\<lambda>r. length (row_tokens r)) rows,
         lengthsPos := lengthsPos res @ map (\<lambda>r. length (row_tokens r)) (of_class Positive rows),
         lengthsNeg := lengthsNeg res @ map (\<lambda>r. length (row_tokens r)) (of_class Negative rows),
         posCount := posCount res + length (of_class Positive rows),
         negCount := negCount res + length (of_class Negative rows),
         posFreq := count_tokens (posFreq res) (concat (map row_tokens (of_class Positive rows))),
         negFreq := count_tokens (negFreq res) (concat (map row_tokens (of_class Negative rows)))\<rparr>"
proof (induction rows arbitrary: res)
  case Nil
  show ?case by (simp add: of_class_def count_tokens_Nil)
next
  case (Cons r rows)
  show ?case
  proof (cases "row_class r")
    case None
    show ?thesis
      unfolding foldl_Cons Cons.IH
      by (simp add: computeMetrics_row_cases None of_class_def)
  next
    case (Some cl)
    show ?thesis
      unfolding foldl_Cons Cons.IH
      by (cases cl) (simp_all add: computeMetrics_row_cases Some of_class_def count_tokens_append)
  qed
qed

lemma computeMetrics_fields:
  "total_rows (computeMetrics rows) = length rows"
  "lengthsOverall (computeMetrics rows) = map (\<lambda>r. length (row_tokens r)) rows"
  "lengthsPos (computeMetrics rows) = map (\<lambda>r. length (row_tokens r)) (of_class Positive rows)"
  "lengthsNeg (computeMetrics rows) = map (\<lambda>r. length (row_tokens r)) (of_class Negative rows)"
  "posCount (computeMetrics rows) = length (of_class Positive rows)"
  "negCount (computeMetrics rows) = length (of_class Negative rows)"
  "posFreq (computeMetrics rows) = count_tokens [] (concat (map row_tokens (of_class Positive rows)))"
  "negFreq (computeMetrics rows) = count_tokens [] (concat (map row_tokens (of_class Negative rows)))"
  "avgOverall (computeMetrics rows) = avg (map (\<lambda>r. length (row_tokens r)) rows)"
  "avgPos (computeMetrics rows) = avg (map (\<lambda>r. length (row_tokens r)) (of_class Positive rows))"
  "avgNeg (computeMetrics rows) = avg (map (\<lambda>r. length (row_tokens r)) (of_class Negative rows))"
  by (simp_all add: computeMetrics_def Let_def foldl_computeMetrics_row result.defs)

lemma map_set_sum:
  "sum_list (map snd (map_set m k (Suc (or_zero (map_get m k))))) = Suc (sum_list (map snd m))"
  by (induction m) (auto simp: map_get_def or_zero_def)

lemma count_tokens_sum:
  "sum_list (map snd (count_tokens m ts)) = sum_list (map snd m) + length ts"
proof (induction ts arbitrary: m)
  case Nil
  show ?case by (simp add: count_tokens_def)
next
  case (Cons t ts)
  have "count_tokens m (t # ts) = count_tokens (map_set m t (or_zero (map_get m t) + 1)) ts"
    by (simp add: count_tokens_def)
  then show ?case by (simp add: Cons.IH map_set_sum)
qed

lemma map_set_keys: "fst ` set (map_set m k v) = insert k (fst ` set m)"
proof (induction m)
  case Nil
  show ?case by simp
next
  case (Cons e m)
  obtain a b where e: "e = (a, b)" by (cases e)
  show ?case
  proof (cases "a = k")
    case True
    then show ?thesis by (simp add: e)
  next
    case False
    then show ?thesis by (simp add: e Cons.IH insert_commute)
  qed
qed

lemma count_tokens_keys: "fst ` set (count_tokens m ts) = fst ` set m \<union> set ts"
proof (induction ts arbitrary: m)
  case Nil
  show ?case by (simp add: count_tokens_def)
next
  case (Cons t ts)
  have "count_tokens m (t # ts) = count_tokens (map_set m t (or_zero (map_get m t) + 1)) ts"
    by (simp add: count_tokens_def)
  then show ?case by (simp add: Cons.IH map_set_keys)
qed

lemma map_set_distinct: "distinct (map fst m) \<Longrightarrow> distinct (map fst (map_set m k v))"
proof (induction m)
  case Nil
  show ?case by simp
next
  case (Cons e m)
  then show ?case
    using map_set_keys [of m k v] by (cases e) (auto simp: image_iff)
qed

lemma count_tokens_distinct: "distinct (map fst m) \<Longrightarrow> distinct (map fst (count_tokens m ts))"
proof (induction ts arbitrary: m)
  case Nil
  then show ?case by (simp add: count_tokens_def)
next
  case (Cons t ts)
  have "count_tokens m (t # ts) = count_tokens (map_set m t (or_zero (map_get m t) + 1)) ts"
    by (simp add: count_tokens_def)
  then show ?case using Cons by (simp add: map_set_distinct)
qed

lemma posFreq_sum:
  "sum_list (map snd (posFreq (computeMetrics rows))) = sum_list (lengthsPos (computeMetrics rows))"
  by (simp add: computeMetrics_fields count_tokens_sum length_concat comp_def)

lemma negFreq_sum:
  "sum_list (map snd (negFreq (computeMetrics rows))) = sum_list (lengthsNeg (computeMetrics rows))"
  by (simp add: computeMetrics_fields count_tokens_sum length_concat comp_def)

lemma avg_finite: "\<exists>q. avg arr = Num q"
  by (simp add: avg_def js_div_def)

lemma avg_Nil: "avg [] = Num 0"
  by (simp add: avg_def)

lemma of_class_unrecognized:
  "row_class r = None \<Longrightarrow> of_class cl (rs1 @ r # rs2) = of_class cl (rs1 @ rs2)"
  by (simp add: of_class_def)

lemma row_class_None:
  "row_class r = None \<longleftrightarrow> sentiment_of r \<notin> {''positive'', ''pos'', ''negative'', ''neg''}"
  using row_class_Positive [of r] row_class_Negative [of r]
  by (cases "row_class r") (auto, metis sentiment_class.exhaust)

section \<open>The statistics of part\_000\<close>

lemma avgLength_finite: "\<exists>q. avgLength ms = Num q"
  by (simp add: avgLength_def js_div_def)

lemma analyzeSentiment_fields:
  "positiveCount (analyzeSentiment k ms) = length (filter (\<lambda>msg. msg_sentiment msg = ''positive'') ms)"
  "negativeCount (analyzeSentiment k ms) = length (filter (\<lambda>msg. msg_sentiment msg = ''negative'') ms)"
  "avgLengthPositive (analyzeSentiment k ms) = avgLength (filter (\<lambda>msg. msg_sentiment msg = ''positive'') ms)"
  "avgLengthNegative (analyzeSentiment k ms) = avgLength (filter (\<lambda>msg. msg_sentiment msg = ''negative'') ms)"
  "topWords (analyzeSentiment k ms)
     = take 20 (sort_key (\<lambda>st. - int (total_count st)) (object_values (wordFrequency k ms)))"
  by (simp_all add: analyzeSentiment_def Let_def)

section \<open>Sorting, insertion order and the columns of a row\<close>

lemma sort_desc_props:
  fixes f :: "'a \<Rightarrow> nat"
  shows "mset (sort_key (\<lambda>e. - int (f e)) xs) = mset xs"
    and "sorted_wrt (\<lambda>a b. f a \<ge> f b) (sort_key (\<lambda>e. - int (f e)) xs)"
    and "filter (\<lambda>e. f e = c) (sort_key (\<lambda>e. - int (f e)) xs) = filter (\<lambda>e. f e = c) xs"
proof -
  show "mset (sort_key (\<lambda>e. - int (f e)) xs) = mset xs" by simp
  have "sorted (map (\<lambda>e. - int (f e)) (sort_key (\<lambda>e. - int (f e)) xs))"
    by (rule sorted_sort_key)
  then show "sorted_wrt (\<lambda>a b. f a \<ge> f b) (sort_key (\<lambda>e. - int (f e)) xs)"
    by (simp add: sorted_map)
  have "filter (\<lambda>e. - int (f e) = - int c) (sort_key (\<lambda>e. - int (f e)) xs)
          = filter (\<lambda>e. - int (f e) = - int c) xs"
    by (rule sort_key_stable)
  then show "filter (\<lambda>e. f e = c) (sort_key (\<lambda>e. - int (f e)) xs) = filter (\<lambda>e. f e = c) xs"
    by simp
qed

lemma slice0_nonneg: "0 \<le> n \<Longrightarrow> slice0 xs n = take (nat n) xs"
  by (simp add: slice0_def)

lemma remdups_snoc: "remdups (xs @ [t]) = filter (\<lambda>x. x \<noteq> t) (remdups xs) @ [t]"
  by (induction xs) auto

lemma first_seen_Cons:
  "rev (remdups (rev (t # ts))) = t # filter (\<lambda>x. x \<noteq> t) (rev (remdups (rev ts)))"
  by (simp add: remdups_snoc rev_filter)

lemma map_set_key_list:
  "map fst (map_set m k v) = (if k \<in> fst ` set m then map fst m else map fst m @ [k])"
proof (induction m)
  case Nil
  show ?case by simp
next
  case (Cons e m)
  obtain a b where e: "e = (a, b)" by (cases e)
  show ?case
  proof (cases "a = k")
    case True
    then show ?thesis by (simp add: e)
  next
    case False
    then show ?thesis by (simp add: e Cons.IH)
  qed
qed

lemma count_tokens_key_list:
  "map fst (count_tokens m ts)
     = map fst m @ filter (\<lambda>t. t \<notin> fst ` set m) (rev (remdups (rev ts)))"
proof (induction ts arbitrary: m)
  case Nil
  show ?case by (simp add: count_tokens_def)
next
  case (Cons t ts)
  have step: "count_tokens m (t # ts) = count_tokens (map_set m t (Suc (or_zero (map_get m t)))) ts"
    by (simp add: count_tokens_def)
  have f: "filter (\<lambda>x. x \<notin> fst ` set m) (filter (\<lambda>x. x \<noteq> t) l)
             = filter (\<lambda>x. x \<noteq> t \<and> x \<notin> fst ` set m) l" for l
    by (induction l) auto
  show ?case
  proof (cases "t \<in> fst ` set m")
    case True
    then have "(\<lambda>x. x \<noteq> t \<and> x \<notin> fst ` set m) = (\<lambda>x. x \<notin> fst ` set m)" by auto
    with True show ?thesis
      unfolding step Cons.IH first_seen_Cons
      by (simp add: map_set_key_list map_set_keys f)
  next
    case False
    then show ?thesis
      unfolding step Cons.IH first_seen_Cons
      by (simp add: map_set_key_list map_set_keys f)
  qed
qed

lemma posFreq_first_seen:
  "map fst (posFreq (computeMetrics rows))
     = rev (remdups (rev (concat (map row_tokens (of_class Positive rows)))))"
  by (simp add: computeMetrics_fields count_tokens_key_list)

lemma negFreq_first_seen:
  "map fst (negFreq (computeMetrics rows))
     = rev (remdups (rev (concat (map row_tokens (of_class Negative rows)))))"
  by (simp add: computeMetrics_fields count_tokens_key_list)

lemma parseCsvText_rows_spec:
  "map review_of (parseCsvText_rows rows)
     = map spec_review (filter (\<lambda>r. spec_review r \<noteq> [] \<and> spec_label r \<noteq> []) rows)"
  "map sentiment_of (parseCsvText_rows rows)
     = map (\<lambda>r. toLowerCase (spec_label r))
         (filter (\<lambda>r. spec_review r \<noteq> [] \<and> spec_label r \<noteq> []) rows)"
  by (induction rows)
     (auto simp: parseCsvText_rows_def review_of_def sentiment_of_def spec_review_def
        spec_label_def first_present_def nullish_def nullish_or_def split: option.splits)

lemma loadData_reads_two_columns:
  "loadData rows
     = loadData (map (\<lambda>r. r\<lparr>row_text := None, row_content := None, row_label := None\<rparr>) rows)"
  by (induction rows) (auto simp: loadData_def)

section \<open>The word table of part\_000\<close>

text \<open>
  The totals of the table add up to the number of words that are not the name of an
  inherited property: those words are never entered.
\<close>

lemma obj_put_lookup: "map_of (obj_put tbl k v) k = Some v"
  by (induction tbl) auto

lemma obj_put_keys: "fst ` set (obj_put tbl k v) = insert k (fst ` set tbl)"
proof (induction tbl)
  case Nil
  show ?case by simp
next
  case (Cons e tbl)
  obtain a b where e: "e = (a, b)" by (cases e)
  show ?case
  proof (cases "a = k")
    case True
    then show ?thesis by (simp add: e)
  next
    case False
    then show ?thesis by (simp add: e Cons.IH insert_commute)
  qed
qed

lemma obj_put_new_sum:
  "map_of tbl k = None \<Longrightarrow>
     sum_list (map (\<lambda>e. total_count (snd e)) (obj_put tbl k v))
       = sum_list (map (\<lambda>e. total_count (snd e)) tbl) + total_count v"
  by (induction tbl) (auto split: if_splits)

lemma obj_put_bump_sum:
  "map_of tbl k = Some st \<Longrightarrow> total_count v = Suc (total_count st) \<Longrightarrow>
     sum_list (map (\<lambda>e. total_count (snd e)) (obj_put tbl k v))
       = Suc (sum_list (map (\<lambda>e. total_count (snd e)) tbl))"
  by (induction tbl) (auto split: if_splits)

lemma count_word_effect:
  assumes inv: "fst ` set tbl \<inter> set objectPrototypeKeys = {}"
  shows "fst ` set (count_word s tbl w) \<inter> set objectPrototypeKeys = {}"
    and "sum_list (map (\<lambda>e. total_count (snd e)) (count_word s tbl w))
           = sum_list (map (\<lambda>e. total_count (snd e)) tbl)
             + (if w \<in> set objectPrototypeKeys then 0 else 1)"
proof -
  consider (own) st where "map_of tbl w = Some st"
    | (inherited) "map_of tbl w = None" "w \<in> set objectPrototypeKeys"
    | (fresh) "map_of tbl w = None" "w \<notin> set objectPrototypeKeys"
    by (cases "map_of tbl w") auto
  then have "fst ` set (count_word s tbl w) \<inter> set objectPrototypeKeys = {}
    \<and> sum_list (map (\<lambda>e. total_count (snd e)) (count_word s tbl w))
           = sum_list (map (\<lambda>e. total_count (snd e)) tbl)
             + (if w \<in> set objectPrototypeKeys then 0 else 1)"
  proof cases
    case own
    then have "w \<in> fst ` set tbl" by (metis domI dom_map_of_conv_image_fst)
    with inv have nw: "w \<notin> set objectPrototypeKeys" by blast
    from own have cw: "count_word s tbl w
        = obj_put tbl w ((if s = ''positive'' then st\<lparr>positive := positive st + 1\<rparr>
                          else st\<lparr>negative := negative st + 1\<rparr>)
                         \<lparr>total_count := total_count (if s = ''positive'' then st\<lparr>positive := positive st + 1\<rparr>
                          else st\<lparr>negative := negative st + 1\<rparr>) + 1\<rparr>)"
      by (simp add: count_word_def obj_get_def Let_def)
    show ?thesis
      unfolding cw using own nw inv \<open>w \<in> fst ` set tbl\<close>
      by (simp add: obj_put_keys insert_absorb obj_put_bump_sum [OF own])
  next
    case inherited
    then show ?thesis using inv by (simp add: count_word_def obj_get_def)
  next
    case fresh
    let ?init = "\<lparr>word = w, positive = 0, negative = 0, total_count = 0\<rparr>"
    let ?t1 = "obj_put tbl w ?init"
    have l1: "map_of ?t1 w = Some ?init" by (rule obj_put_lookup)
    have cw: "count_word s tbl w
        = obj_put ?t1 w ((if s = ''positive'' then ?init\<lparr>positive := positive ?init + 1\<rparr>
                          else ?init\<lparr>negative := negative ?init + 1\<rparr>)
                         \<lparr>total_count := total_count (if s = ''positive'' then ?init\<lparr>positive := positive ?init + 1\<rparr>
                          else ?init\<lparr>negative := negative ?init + 1\<rparr>) + 1\<rparr>)"
      using fresh l1 by (simp add: count_word_def obj_get_def Let_def)
    have s1: "sum_list (map (\<lambda>e. total_count (snd e)) ?t1)
                = sum_list (map (\<lambda>e. total_count (snd e)) tbl)"
      using obj_put_new_sum [OF fresh(1), of ?init] by simp
    show ?thesis
      unfolding cw using fresh inv s1
      by (simp add: obj_put_keys obj_put_bump_sum [OF l1])
  qed
  then show "fst ` set (count_word s tbl w) \<inter> set objectPrototypeKeys = {}"
    and "sum_list (map (\<lambda>e. total_count (snd e)) (count_word s tbl w))
           = sum_list (map (\<lambda>e. total_count (snd e)) tbl)
             + (if w \<in> set objectPrototypeKeys then 0 else 1)"
    by blast+
qed

lemma count_words_effect:
  "fst ` set tbl \<inter> set objectPrototypeKeys = {} \<Longrightarrow>
     fst ` set (foldl (count_word s) tbl ws) \<inter> set objectPrototypeKeys = {}
     \<and> sum_list (map (\<lambda>e. total_count (snd e)) (foldl (count_word s) tbl ws))
         = sum_list (map (\<lambda>e. total_count (snd e)) tbl)
           + length (filter (\<lambda>w. w \<notin> set objectPrototypeKeys) ws)"
proof (induction ws arbitrary: tbl)
  case Nil
  then show ?case by simp
next
  case (Cons w ws)
  from count_word_effect [OF Cons.prems, of s w]
  have inv: "fst ` set (count_word s tbl w) \<inter> set objectPrototypeKeys = {}"
    and sm: "sum_list (map (\<lambda>e. total_count (snd e)) (count_word s tbl w))
           = sum_list (map (\<lambda>e. total_count (snd e)) tbl)
             + (if w \<in> set objectPrototypeKeys then 0 else 1)"
    by blast+
  from Cons.IH [OF inv] sm show ?case by simp
qed

lemma count_messages_effect:
  "fst ` set tbl \<inter> set objectPrototypeKeys = {} \<Longrightarrow>
     fst ` set (foldl (\<lambda>tbl msg. foldl (count_word (msg_sentiment msg)) tbl
                        (wordSplit k (msg_text msg))) tbl ms) \<inter> set objectPrototypeKeys = {}
     \<and> sum_list (map (\<lambda>e. total_count (snd e))
          (foldl (\<lambda>tbl msg. foldl (count_word (msg_sentiment msg)) tbl
                        (wordSplit k (msg_text msg))) tbl ms))
         = sum_list (map (\<lambda>e. total_count (snd e)) tbl)
           + length (filter (\<lambda>w. w \<notin> set objectPrototypeKeys)
               (concat (map (\<lambda>msg. wordSplit k (msg_text msg)) ms)))"
proof (induction ms arbitrary: tbl)
  case Nil
  then show ?case by simp
next
  case (Cons msg ms)
  from count_words_effect [OF Cons.prems, of "msg_sentiment msg" "wordSplit k (msg_text msg)"]
  have inv: "fst ` set (foldl (count_word (msg_sentiment msg)) tbl (wordSplit k (msg_text msg)))
               \<inter> set objectPrototypeKeys = {}"
    and sm: "sum_list (map (\<lambda>e. total_count (snd e))
               (foldl (count_word (msg_sentiment msg)) tbl (wordSplit k (msg_text msg))))
         = sum_list (map (\<lambda>e. total_count (snd e)) tbl)
           + length (filter (\<lambda>w. w \<notin> set objectPrototypeKeys) (wordSplit k (msg_text msg)))"
    by blast+
  from Cons.IH [OF inv] sm show ?case by simp
qed

lemma wordFrequency_total_sum:
  "sum_list (map (\<lambda>e. total_count (snd e)) (wordFrequency k ms))
     = length (filter (\<lambda>w. w \<notin> set objectPrototypeKeys)
         (concat (map (\<lambda>msg. wordSplit k (msg_text msg)) ms)))"
  using count_messages_effect [of "[]" k ms] by (simp add: wordFrequency_def)

text \<open>
  The words of a message whose label is not \<^verbatim>\<open>positive\<close> are counted in the negative
  column, whatever the label: the branch is a plain \<^verbatim>\<open>else\<close>, while
  \<^verbatim>\<open>negativeCount\<close> compares with \<^verbatim>\<open>'negative'\<close>.
\<close>

lemma wordFrequency_counts_neutral_as_negative:
  "wordFrequency 3 [\<lparr>msg_text = ''fine film'', msg_sentiment = ''neutral''\<rparr>]
     = [(''fine'', \<lparr>word = ''fine'', positive = 0, negative = 1, total_count = 1\<rparr>),
        (''film'', \<lparr>word = ''film'', positive = 0, negative = 1, total_count = 1\<rparr>)]
   \<and> negativeCount (analyzeSentiment 3 [\<lparr>msg_text = ''fine film'', msg_sentiment = ''neutral''\<rparr>]) = 0"
  by code_simp

section \<open>The exact contents of the tables\<close>

text \<open>
  The count a table of part\_001 holds for a token is the number of its occurrences. In
  part\_000 each column of the word table adds up to the number of words counted in it,
  the names of inherited properties left out, and the keys are the words entered.
\<close>

lemma map_set_lookup: "map_of (map_set m k v) k' = (if k' = k then Some v else map_of m k')"
  by (induction m) auto

lemma count_tokens_lookup:
  "or_zero (map_get (count_tokens m ts) t) = or_zero (map_get m t) + count_list ts t"
proof (induction ts arbitrary: m)
  case Nil
  show ?case by (simp add: count_tokens_def)
next
  case (Cons x ts)
  have step: "count_tokens m (x # ts) = count_tokens (map_set m x (Suc (or_zero (map_get m x)))) ts"
    by (simp add: count_tokens_def)
  show ?case
    unfolding step Cons.IH
    by (simp add: map_get_def map_set_lookup or_zero_def)
qed

lemma posFreq_count:
  "or_zero (map_get (posFreq (computeMetrics rows)) t)
     = count_list (concat (map row_tokens (of_class Positive rows))) t"
  unfolding computeMetrics_fields count_tokens_lookup
  by (simp add: map_get_def or_zero_def)

lemma negFreq_count:
  "or_zero (map_get (negFreq (computeMetrics rows)) t)
     = count_list (concat (map row_tokens (of_class Negative rows))) t"
  unfolding computeMetrics_fields count_tokens_lookup
  by (simp add: map_get_def or_zero_def)

lemma obj_put_new_column:
  "map_of tbl k = None \<Longrightarrow>
     sum_list (map (\<lambda>e. f (snd e)) (obj_put tbl k v)) = sum_list (map (\<lambda>e. f (snd e)) tbl) + f v"
  for f :: "wordStats \<Rightarrow> nat"
  by (induction tbl) (auto split: if_splits)

lemma obj_put_replace_column:
  "map_of tbl k = Some st \<Longrightarrow>
     sum_list (map (\<lambda>e. f (snd e)) (obj_put tbl k v)) + f st
       = sum_list (map (\<lambda>e. f (snd e)) tbl) + f v"
  for f :: "wordStats \<Rightarrow> nat"
  by (induction tbl) (auto split: if_splits)

lemma count_word_columns:
  assumes inv: "fst ` set tbl \<inter> set objectPrototypeKeys = {}"
  shows "fst ` set (count_word s tbl w)
           = (if w \<in> set objectPrototypeKeys then fst ` set tbl else insert w (fst ` set tbl))"
    and "sum_list (map (\<lambda>e. positive (snd e)) (count_word s tbl w))
           = sum_list (map (\<lambda>e. positive (snd e)) tbl)
             + (if w \<notin> set objectPrototypeKeys \<and> s = ''positive'' then 1 else 0)"
    and "sum_list (map (\<lambda>e. negative (snd e)) (count_word s tbl w))
           = sum_list (map (\<lambda>e. negative (snd e)) tbl)
             + (if w \<notin> set objectPrototypeKeys \<and> s \<noteq> ''positive'' then 1 else 0)"
proof -
  let ?bump = "\<lambda>st :: wordStats. (if s = ''positive'' then st\<lparr>positive := positive st + 1\<rparr>
                          else st\<lparr>negative := negative st + 1\<rparr>)
                 \<lparr>total_count := total_count (if s = ''positive'' then st\<lparr>positive := positive st + 1\<rparr>
                          else st\<lparr>negative := negative st + 1\<rparr>) + 1\<rparr>"
  have bp: "positive (?bump st) = positive st + (if s = ''positive'' then 1 else 0)"
    and bn: "negative (?bump st) = negative st + (if s \<noteq> ''positive'' then 1 else 0)" for st
    by simp_all
  consider (own) st where "map_of tbl w = Some st"
    | (inherited) "map_of tbl w = None" "w \<in> set objectPrototypeKeys"
    | (fresh) "map_of tbl w = None" "w \<notin> set objectPrototypeKeys"
    by (cases "map_of tbl w") auto
  then have "fst ` set (count_word s tbl w)
           = (if w \<in> set objectPrototypeKeys then fst ` set tbl else insert w (fst ` set tbl))
    \<and> sum_list (map (\<lambda>e. positive (snd e)) (count_word s tbl w))
           = sum_list (map (\<lambda>e. positive (snd e)) tbl)
             + (if w \<notin> set objectPrototypeKeys \<and> s = ''positive'' then 1 else 0)
    \<and> sum_list (map (\<lambda>e. negative (snd e)) (count_word s tbl w))
           = sum_list (map (\<lambda>e. negative (snd e)) tbl)
             + (if w \<notin> set objectPrototypeKeys \<and> s \<noteq> ''positive'' then 1 else 0)"
  proof cases
    case own
    then have key: "w \<in> fst ` set tbl" by (metis domI dom_map_of_conv_image_fst)
    with inv have nw: "w \<notin> set objectPrototypeKeys" by blast
    from own have cw: "count_word s tbl w = obj_put tbl w (?bump st)"
      by (simp add: count_word_def obj_get_def Let_def)
    have p: "sum_list (map (\<lambda>e. positive (snd e)) (obj_put tbl w (?bump st))) + positive st
               = sum_list (map (\<lambda>e. positive (snd e)) tbl) + positive (?bump st)"
      by (rule obj_put_replace_column [OF own])
    have n: "sum_list (map (\<lambda>e. negative (snd e)) (obj_put tbl w (?bump st))) + negative st
               = sum_list (map (\<lambda>e. negative (snd e)) tbl) + negative (?bump st)"
      by (rule obj_put_replace_column [OF own])
    from p have p': "sum_list (map (\<lambda>e. positive (snd e)) (obj_put tbl w (?bump st)))
               = sum_list (map (\<lambda>e. positive (snd e)) tbl) + (if s = ''positive'' then 1 else 0)"
      unfolding bp by linarith
    from n have n': "sum_list (map (\<lambda>e. negative (snd e)) (obj_put tbl w (?bump st)))
               = sum_list (map (\<lambda>e. negative (snd e)) tbl) + (if s \<noteq> ''positive'' then 1 else 0)"
      unfolding bn by linarith
    show ?thesis
      unfolding cw p' n' using nw key by (simp add: obj_put_keys insert_absorb)
  next
    case inherited
    then show ?thesis by (simp add: count_word_def obj_get_def)
  next
    case fresh
    let ?init = "\<lparr>word = w, positive = 0, negative = 0, total_count = 0\<rparr>"
    let ?t1 = "obj_put tbl w ?init"
    have l1: "map_of ?t1 w = Some ?init" by (rule obj_put_lookup)
    have cw: "count_word s tbl w = obj_put ?t1 w (?bump ?init)"
      using fresh l1 by (simp add: count_word_def obj_get_def Let_def)
    have s1: "sum_list (map (\<lambda>e. f (snd e)) ?t1) = sum_list (map (\<lambda>e. f (snd e)) tbl) + f ?init"
      for f :: "wordStats \<Rightarrow> nat"
      by (rule obj_put_new_column [OF fresh(1)])
    have p: "sum_list (map (\<lambda>e. positive (snd e)) (obj_put ?t1 w (?bump ?init))) + positive ?init
               = sum_list (map (\<lambda>e. positive (snd e)) ?t1) + positive (?bump ?init)"
      by (rule obj_put_replace_column [OF l1])
    have n: "sum_list (map (\<lambda>e. negative (snd e)) (obj_put ?t1 w (?bump ?init))) + negative ?init
               = sum_list (map (\<lambda>e. negative (snd e)) ?t1) + negative (?bump ?init)"
      by (rule obj_put_replace_column [OF l1])
    from p have p': "sum_list (map (\<lambda>e. positive (snd e)) (obj_put ?t1 w (?bump ?init)))
               = sum_list (map (\<lambda>e. positive (snd e)) tbl) + (if s = ''positive'' then 1 else 0)"
      unfolding bp s1 by simp
    from n have n': "sum_list (map (\<lambda>e. negative (snd e)) (obj_put ?t1 w (?bump ?init)))
               = sum_list (map (\<lambda>e. negative (snd e)) tbl) + (if s \<noteq> ''positive'' then 1 else 0)"
      unfolding bn s1 by simp
    show ?thesis
      unfolding cw p' n' using fresh by (simp add: obj_put_keys)
  qed
  then show "fst ` set (count_word s tbl w)
           = (if w \<in> set objectPrototypeKeys then fst ` set tbl else insert w (fst ` set tbl))"
    and "sum_list (map (\<lambda>e. positive (snd e)) (count_word s tbl w))
           = sum_list (map (\<lambda>e. positive (snd e)) tbl)
             + (if w \<notin> set objectPrototypeKeys \<and> s = ''positive'' then 1 else 0)"
    and "sum_list (map (\<lambda>e. negative (snd e)) (count_word s tbl w))
           = sum_list (map (\<lambda>e. negative (snd e)) tbl)
             + (if w \<notin> set objectPrototypeKeys \<and> s \<noteq> ''positive'' then 1 else 0)"
    by blast+
qed


lemma count_words_columns:
  "fst ` set tbl \<inter> set objectPrototypeKeys = {} \<Longrightarrow>
     fst ` set (foldl (count_word s) tbl ws)
       = fst ` set tbl \<union> {w \<in> set ws. w \<notin> set objectPrototypeKeys}
     \<and> sum_list (map (\<lambda>e. positive (snd e)) (foldl (count_word s) tbl ws))
         = sum_list (map (\<lambda>e. positive (snd e)) tbl)
           + (if s = ''positive''
              then length (filter (\<lambda>w. w \<notin> set objectPrototypeKeys) ws) else 0)
     \<and> sum_list (map (\<lambda>e. negative (snd e)) (foldl (count_word s) tbl ws))
         = sum_list (map (\<lambda>e. negative (snd e)) tbl)
           + (if s \<noteq> ''positive''
              then length (filter (\<lambda>w. w \<notin> set objectPrototypeKeys) ws) else 0)"
proof (induction ws arbitrary: tbl)
  case Nil
  then show ?case by simp
next
  case (Cons w ws)
  have inv: "fst ` set (count_word s tbl w) \<inter> set objectPrototypeKeys = {}"
    by (rule count_word_effect(1) [OF Cons.prems])
  note step = count_word_columns [OF Cons.prems, of s w]
  from Cons.IH [OF inv] show ?case
    unfolding foldl_Cons step by auto
qed

lemma count_messages_columns:
  "fst ` set tbl \<inter> set objectPrototypeKeys = {} \<Longrightarrow>
     fst ` set (foldl (\<lambda>tbl msg. foldl (count_word (msg_sentiment msg)) tbl
                        (wordSplit k (msg_text msg))) tbl ms)
       = fst ` set tbl
         \<union> {w \<in> (\<Union>msg \<in> set ms. set (wordSplit k (msg_text msg))). w \<notin> set objectPrototypeKeys}
     \<and> sum_list (map (\<lambda>e. positive (snd e))
          (foldl (\<lambda>tbl msg. foldl (count_word (msg_sentiment msg)) tbl
                        (wordSplit k (msg_text msg))) tbl ms))
         = sum_list (map (\<lambda>e. positive (snd e)) tbl)
           + length (filter (\<lambda>w. w \<notin> set objectPrototypeKeys)
               (concat (map (\<lambda>msg. wordSplit k (msg_text msg))
                  (filter (\<lambda>msg. msg_sentiment msg = ''positive'') ms))))
     \<and> sum_list (map (\<lambda>e. negative (snd e))
          (foldl (\<lambda>tbl msg. foldl (count_word (msg_sentiment msg)) tbl
                        (wordSplit k (msg_text msg))) tbl ms))
         = sum_list (map (\<lambda>e. negative (snd e)) tbl)
           + length (filter (\<lambda>w. w \<notin> set objectPrototypeKeys)
               (concat (map (\<lambda>msg. wordSplit k (msg_text msg))
                  (filter (\<lambda>msg. msg_sentiment msg \<noteq> ''positive'') ms))))"
proof (induction ms arbitrary: tbl)
  case Nil
  then show ?case by simp
next
  case (Cons msg ms)
  let ?t = "foldl (count_word (msg_sentiment msg)) tbl (wordSplit k (msg_text msg))"
  have inv: "fst ` set ?t \<inter> set objectPrototypeKeys = {}"
    using count_words_effect [OF Cons.prems, of "msg_sentiment msg" "wordSplit k (msg_text msg)"]
    by blast
  note step = count_words_columns [OF Cons.prems, of "msg_sentiment msg" "wordSplit k (msg_text msg)"]
  from Cons.IH [OF inv] show ?case
    unfolding foldl_Cons using step by auto
qed

lemma wordFrequency_columns:
  "fst ` set (wordFrequency k ms)
     = {w \<in> (\<Union>msg \<in> set ms. set (wordSplit k (msg_text msg))). w \<notin> set objectPrototypeKeys}"
  "sum_list (map (\<lambda>e. positive (snd e)) (wordFrequency k ms))
     = length (filter (\<lambda>w. w \<notin> set objectPrototypeKeys)
         (concat (map (\<lambda>msg. wordSplit k (msg_text msg))
            (filter (\<lambda>msg. msg_sentiment msg = ''positive'') ms))))"
  "sum_list (map (\<lambda>e. negative (snd e)) (wordFrequency k ms))
     = length (filter (\<lambda>w. w \<notin> set objectPrototypeKeys)
         (concat (map (\<lambda>msg. wordSplit k (msg_text msg))
            (filter (\<lambda>msg. msg_sentiment msg \<noteq> ''positive'') ms))))"
  using count_messages_columns [of "[]" k ms] by (simp_all add: wordFrequency_def)

section \<open>The claims\<close>

text \<open>
  C1, as amended: a row whose label is none of \<^verbatim>\<open>positive\<close>, \<^verbatim>\<open>pos\<close>,
  \<^verbatim>\<open>negative\<close>, \<^verbatim>\<open>neg\<close> (part\_001), or neither \<^verbatim>\<open>positive\<close> nor
  \<^verbatim>\<open>negative\<close> (part\_000), changes neither per-class count, neither per-class average
  and, in part\_001, neither frequency table: the statistics are those of the rows without
  it. It is still a row of the input: \<^verbatim>\<open>total\<close> of part\_001 is the number of all rows,
  and the list of overall lengths holds the row's length at the row's place.
  Both functions are total, so no row raises an error.
\<close>

theorem unrecognized_row_excluded:
  "(sentiment_of r \<notin> {''positive'', ''pos'', ''negative'', ''neg''} \<longrightarrow>
      posCount (computeMetrics (rs1 @ r # rs2)) = posCount (computeMetrics (rs1 @ rs2)) \<and>
      negCount (computeMetrics (rs1 @ r # rs2)) = negCount (computeMetrics (rs1 @ rs2)) \<and>
      posFreq (computeMetrics (rs1 @ r # rs2)) = posFreq (computeMetrics (rs1 @ rs2)) \<and>
      negFreq (computeMetrics (rs1 @ r # rs2)) = negFreq (computeMetrics (rs1 @ rs2)) \<and>
      lengthsPos (computeMetrics (rs1 @ r # rs2)) = lengthsPos (computeMetrics (rs1 @ rs2)) \<and>
      lengthsNeg (computeMetrics (rs1 @ r # rs2)) = lengthsNeg (computeMetrics (rs1 @ rs2)) \<and>
      avgPos (computeMetrics (rs1 @ r # rs2)) = avgPos (computeMetrics (rs1 @ rs2)) \<and>
      avgNeg (computeMetrics (rs1 @ r # rs2)) = avgNeg (computeMetrics (rs1 @ rs2)) \<and>
      total_rows (computeMetrics (rs1 @ r # rs2)) = total_rows (computeMetrics (rs1 @ rs2)) + 1 \<and>
      lengthsOverall (computeMetrics (rs1 @ r # rs2))
        = lengthsOverall (computeMetrics rs1) @ length (tokenize (review_of r))
            # lengthsOverall (computeMetrics rs2))
   \<and> (msg_sentiment msg \<notin> {''positive'', ''negative''} \<longrightarrow>
      positiveCount (analyzeSentiment k (ms1 @ msg # ms2))
        = positiveCount (analyzeSentiment k (ms1 @ ms2)) \<and>
      negativeCount (analyzeSentiment k (ms1 @ msg # ms2))
        = negativeCount (analyzeSentiment k (ms1 @ ms2)) \<and>
      avgLengthPositive (analyzeSentiment k (ms1 @ msg # ms2))
        = avgLengthPositive (analyzeSentiment k (ms1 @ ms2)) \<and>
      avgLengthNegative (analyzeSentiment k (ms1 @ msg # ms2))
        = avgLengthNegative (analyzeSentiment k (ms1 @ ms2)))"
proof (intro conjI impI)
  assume "sentiment_of r \<notin> {''positive'', ''pos'', ''negative'', ''neg''}"
  then have "row_class r = None" by (simp add: row_class_None)
  then have eq: "of_class cl (rs1 @ r # rs2) = of_class cl (rs1 @ rs2)" for cl
    by (rule of_class_unrecognized)
  show "posCount (computeMetrics (rs1 @ r # rs2)) = posCount (computeMetrics (rs1 @ rs2))"
    and "negCount (computeMetrics (rs1 @ r # rs2)) = negCount (computeMetrics (rs1 @ rs2))"
    and "posFreq (computeMetrics (rs1 @ r # rs2)) = posFreq (computeMetrics (rs1 @ rs2))"
    and "negFreq (computeMetrics (rs1 @ r # rs2)) = negFreq (computeMetrics (rs1 @ rs2))"
    and "lengthsPos (computeMetrics (rs1 @ r # rs2)) = lengthsPos (computeMetrics (rs1 @ rs2))"
    and "lengthsNeg (computeMetrics (rs1 @ r # rs2)) = lengthsNeg (computeMetrics (rs1 @ rs2))"
    and "avgPos (computeMetrics (rs1 @ r # rs2)) = avgPos (computeMetrics (rs1 @ rs2))"
    and "avgNeg (computeMetrics (rs1 @ r # rs2)) = avgNeg (computeMetrics (rs1 @ rs2))"
    by (simp_all only: computeMetrics_fields eq)
  show "total_rows (computeMetrics (rs1 @ r # rs2)) = total_rows (computeMetrics (rs1 @ rs2)) + 1"
    by (simp add: computeMetrics_fields)
  show "lengthsOverall (computeMetrics (rs1 @ r # rs2))
        = lengthsOverall (computeMetrics rs1) @ length (tokenize (review_of r))
            # lengthsOverall (computeMetrics rs2)"
    by (simp add: computeMetrics_fields row_tokens_def)
next
  assume "msg_sentiment msg \<notin> {''positive'', ''negative''}"
  then have "filter (\<lambda>m. msg_sentiment m = ''positive'') (ms1 @ msg # ms2)
               = filter (\<lambda>m. msg_sentiment m = ''positive'') (ms1 @ ms2)"
    and "filter (\<lambda>m. msg_sentiment m = ''negative'') (ms1 @ msg # ms2)
               = filter (\<lambda>m. msg_sentiment m = ''negative'') (ms1 @ ms2)"
    by simp_all
  then show "positiveCount (analyzeSentiment k (ms1 @ msg # ms2))
        = positiveCount (analyzeSentiment k (ms1 @ ms2))"
    and "negativeCount (analyzeSentiment k (ms1 @ msg # ms2))
        = negativeCount (analyzeSentiment k (ms1 @ ms2))"
    and "avgLengthPositive (analyzeSentiment k (ms1 @ msg # ms2))
        = avgLengthPositive (analyzeSentiment k (ms1 @ ms2))"
    and "avgLengthNegative (analyzeSentiment k (ms1 @ msg # ms2))
        = avgLengthNegative (analyzeSentiment k (ms1 @ ms2))"
    by (simp_all only: analyzeSentiment_fields)
qed

theorem unrecognized_row_excluded_witness:
  "sentiment_of \<lparr>row_review = Some ''fine film'', row_text = None, row_content = None,
        row_sentiment = Some ''Neutral'', row_label = None\<rparr> = ''neutral''
   \<and> posCount (computeMetrics [\<lparr>row_review = Some ''Great movie'', row_text = None, row_content = None,
        row_sentiment = Some ''positive'', row_label = None\<rparr>, \<lparr>row_review = Some ''fine film'', row_text = None, row_content = None,
        row_sentiment = Some ''Neutral'', row_label = None\<rparr>]) = 1
   \<and> posFreq (computeMetrics [\<lparr>row_review = Some ''Great movie'', row_text = None, row_content = None,
        row_sentiment = Some ''positive'', row_label = None\<rparr>, \<lparr>row_review = Some ''fine film'', row_text = None, row_content = None,
        row_sentiment = Some ''Neutral'', row_label = None\<rparr>]) = [(''great'', 1), (''movie'', 1)]
   \<and> negFreq (computeMetrics [\<lparr>row_review = Some ''Great movie'', row_text = None, row_content = None,
        row_sentiment = Some ''positive'', row_label = None\<rparr>, \<lparr>row_review = Some ''fine film'', row_text = None, row_content = None,
        row_sentiment = Some ''Neutral'', row_label = None\<rparr>]) = []
   \<and> total_rows (computeMetrics [\<lparr>row_review = Some ''Great movie'', row_text = None, row_content = None,
        row_sentiment = Some ''positive'', row_label = None\<rparr>, \<lparr>row_review = Some ''fine film'', row_text = None, row_content = None,
        row_sentiment = Some ''Neutral'', row_label = None\<rparr>]) = 2
   \<and> positiveCount (analyzeSentiment 3
         [\<lparr>msg_text = ''great movie'', msg_sentiment = ''positive''\<rparr>,
          \<lparr>msg_text = ''fine film'', msg_sentiment = ''neutral''\<rparr>]) = 1"
proof -
  let ?p = "\<lparr>row_review = Some ''Great movie'', row_text = None, row_content = None,
        row_sentiment = Some ''positive'', row_label = None\<rparr>"
  let ?r = "\<lparr>row_review = Some ''fine film'', row_text = None, row_content = None,
        row_sentiment = Some ''Neutral'', row_label = None\<rparr>"
  let ?m = "\<lparr>msg_text = ''great movie'', msg_sentiment = ''positive''\<rparr>"
  let ?n = "\<lparr>msg_text = ''fine film'', msg_sentiment = ''neutral''\<rparr>"
  have s: "sentiment_of ?r = ''neutral''" by code_simp
  then have h1: "sentiment_of ?r \<notin> {''positive'', ''pos'', ''negative'', ''neg''}" by simp
  have h2: "msg_sentiment ?n \<notin> {''positive'', ''negative''}" by simp
  have base: "posCount (computeMetrics [?p]) = 1"
    "posFreq (computeMetrics [?p]) = [(''great'', 1), (''movie'', 1)]"
    "negFreq (computeMetrics [?p]) = []"
    "total_rows (computeMetrics [?p]) = 1"
    "positiveCount (analyzeSentiment 3 [?m]) = 1"
    by code_simp+
  from unrecognized_row_excluded [of ?r "[?p]" "[]" ?n 3 "[?m]" "[]"] h1 h2
  have "posCount (computeMetrics [?p, ?r]) = posCount (computeMetrics [?p])"
    and "posFreq (computeMetrics [?p, ?r]) = posFreq (computeMetrics [?p])"
    and "negFreq (computeMetrics [?p, ?r]) = negFreq (computeMetrics [?p])"
    and "total_rows (computeMetrics [?p, ?r]) = total_rows (computeMetrics [?p]) + 1"
    and "positiveCount (analyzeSentiment 3 [?m, ?n]) = positiveCount (analyzeSentiment 3 [?m])"
    by simp_all
  with base s show ?thesis by simp
qed

theorem unrecognized_row_in_total_counterexample:
  "sentiment_of \<lparr>row_review = Some ''fine film'', row_text = None, row_content = None,
        row_sentiment = Some ''Neutral'', row_label = None\<rparr> = ''neutral''
   \<and> total_rows (computeMetrics [\<lparr>row_review = Some ''fine film'', row_text = None, row_content = None,
        row_sentiment = Some ''Neutral'', row_label = None\<rparr>]) = 1
   \<and> lengthsOverall (computeMetrics [\<lparr>row_review = Some ''fine film'', row_text = None, row_content = None,
        row_sentiment = Some ''Neutral'', row_label = None\<rparr>]) = [2]
   \<and> total_rows (computeMetrics []) = 0"
  by code_simp

text \<open>
  C2, as amended. part\_001: the counts of a label's frequency table add up to the number
  of tokens in the reviews of that label, each count being the number of occurrences of
  its token there, so the sum is bounded by the tokens and not by the reviews; the number
  of distinct keys across the two tables, the vocabulary size, is the number of distinct
  tokens across the reviews with a recognized label. part\_000: when every message is
  labelled \<^verbatim>\<open>positive\<close> or \<^verbatim>\<open>negative\<close> and no word is the name of an inherited
  property, the positive, negative and total columns of the word table add up to the
  number of words of the positive, the negative and all messages, and the keys of the
  table are the distinct words.
\<close>

theorem freq_sum_eq_tokens_and_vocabulary:
  "sum_list (map snd (posFreq (computeMetrics rows))) = sum_list (lengthsPos (computeMetrics rows))
   \<and> sum_list (map snd (posFreq (computeMetrics rows)))
       = length (concat (map row_tokens (of_class Positive rows)))
   \<and> sum_list (map snd (negFreq (computeMetrics rows))) = sum_list (lengthsNeg (computeMetrics rows))
   \<and> sum_list (map snd (negFreq (computeMetrics rows)))
       = length (concat (map row_tokens (of_class Negative rows)))
   \<and> or_zero (map_get (posFreq (computeMetrics rows)) t)
       = count_list (concat (map row_tokens (of_class Positive rows))) t
   \<and> or_zero (map_get (negFreq (computeMetrics rows)) t)
       = count_list (concat (map row_tokens (of_class Negative rows))) t
   \<and> fst ` set (posFreq (computeMetrics rows)) \<union> fst ` set (negFreq (computeMetrics rows))
       = (\<Union>r \<in> set (of_class Positive rows) \<union> set (of_class Negative rows). set (row_tokens r))
   \<and> card (fst ` set (posFreq (computeMetrics rows)) \<union> fst ` set (negFreq (computeMetrics rows)))
       = card (\<Union>r \<in> set (of_class Positive rows) \<union> set (of_class Negative rows). set (row_tokens r))
   \<and> ((\<forall>msg \<in> set ms. msg_sentiment msg = ''positive'' \<or> msg_sentiment msg = ''negative'')
        \<and> (\<forall>msg \<in> set ms. \<forall>w \<in> set (wordSplit k (msg_text msg)). w \<notin> set objectPrototypeKeys)
      \<longrightarrow>
        sum_list (map (\<lambda>e. positive (snd e)) (wordFrequency k ms))
          = length (concat (map (\<lambda>msg. wordSplit k (msg_text msg))
              (filter (\<lambda>msg. msg_sentiment msg = ''positive'') ms)))
        \<and> sum_list (map (\<lambda>e. negative (snd e)) (wordFrequency k ms))
          = length (concat (map (\<lambda>msg. wordSplit k (msg_text msg))
              (filter (\<lambda>msg. msg_sentiment msg = ''negative'') ms)))
        \<and> sum_list (map (\<lambda>e. total_count (snd e)) (wordFrequency k ms))
          = length (concat (map (\<lambda>msg. wordSplit k (msg_text msg)) ms))
        \<and> fst ` set (wordFrequency k ms) = (\<Union>msg \<in> set ms. set (wordSplit k (msg_text msg)))
        \<and> card (fst ` set (wordFrequency k ms))
          = card (\<Union>msg \<in> set ms. set (wordSplit k (msg_text msg))))"
proof -
  have keys: "fst ` set (posFreq (computeMetrics rows)) \<union> fst ` set (negFreq (computeMetrics rows))
       = (\<Union>r \<in> set (of_class Positive rows) \<union> set (of_class Negative rows). set (row_tokens r))"
    by (auto simp: computeMetrics_fields count_tokens_keys)
  have pos_tokens: "sum_list (map snd (posFreq (computeMetrics rows)))
       = length (concat (map row_tokens (of_class Positive rows)))"
    by (simp add: computeMetrics_fields count_tokens_sum)
  have neg_tokens: "sum_list (map snd (negFreq (computeMetrics rows)))
       = length (concat (map row_tokens (of_class Negative rows)))"
    by (simp add: computeMetrics_fields count_tokens_sum)
  have part_001:
    "sum_list (map snd (posFreq (computeMetrics rows))) = sum_list (lengthsPos (computeMetrics rows))
   \<and> sum_list (map snd (posFreq (computeMetrics rows)))
       = length (concat (map row_tokens (of_class Positive rows)))
   \<and> sum_list (map snd (negFreq (computeMetrics rows))) = sum_list (lengthsNeg (computeMetrics rows))
   \<and> sum_list (map snd (negFreq (computeMetrics rows)))
       = length (concat (map row_tokens (of_class Negative rows)))
   \<and> or_zero (map_get (posFreq (computeMetrics rows)) t)
       = count_list (concat (map row_tokens (of_class Positive rows))) t
   \<and> or_zero (map_get (negFreq (computeMetrics rows)) t)
       = count_list (concat (map row_tokens (of_class Negative rows))) t
   \<and> fst ` set (posFreq (computeMetrics rows)) \<union> fst ` set (negFreq (computeMetrics rows))
       = (\<Union>r \<in> set (of_class Positive rows) \<union> set (of_class Negative rows). set (row_tokens r))
   \<and> card (fst ` set (posFreq (computeMetrics rows)) \<union> fst ` set (negFreq (computeMetrics rows)))
       = card (\<Union>r \<in> set (of_class Positive rows) \<union> set (of_class Negative rows). set (row_tokens r))"
    using keys pos_tokens neg_tokens
    by (simp only: posFreq_sum negFreq_sum posFreq_count negFreq_count simp_thms)
  have part_000:
    "sum_list (map (\<lambda>e. positive (snd e)) (wordFrequency k ms))
          = length (concat (map (\<lambda>msg. wordSplit k (msg_text msg))
              (filter (\<lambda>msg. msg_sentiment msg = ''positive'') ms)))
        \<and> sum_list (map (\<lambda>e. negative (snd e)) (wordFrequency k ms))
          = length (concat (map (\<lambda>msg. wordSplit k (msg_text msg))
              (filter (\<lambda>msg. msg_sentiment msg = ''negative'') ms)))
        \<and> sum_list (map (\<lambda>e. total_count (snd e)) (wordFrequency k ms))
          = length (concat (map (\<lambda>msg. wordSplit k (msg_text msg)) ms))
        \<and> fst ` set (wordFrequency k ms) = (\<Union>msg \<in> set ms. set (wordSplit k (msg_text msg)))
        \<and> card (fst ` set (wordFrequency k ms))
          = card (\<Union>msg \<in> set ms. set (wordSplit k (msg_text msg)))"
    if labels: "\<forall>msg \<in> set ms. msg_sentiment msg = ''positive'' \<or> msg_sentiment msg = ''negative''"
      and names: "\<forall>msg \<in> set ms. \<forall>w \<in> set (wordSplit k (msg_text msg)). w \<notin> set objectPrototypeKeys"
  proof -
    have keep: "filter (\<lambda>w. w \<notin> set objectPrototypeKeys)
                  (concat (map (\<lambda>msg. wordSplit k (msg_text msg)) (filter P ms)))
                = concat (map (\<lambda>msg. wordSplit k (msg_text msg)) (filter P ms))" for P
      using names by (auto simp: filter_id_conv)
    have keep_all: "filter (\<lambda>w. w \<notin> set objectPrototypeKeys)
                  (concat (map (\<lambda>msg. wordSplit k (msg_text msg)) ms))
                = concat (map (\<lambda>msg. wordSplit k (msg_text msg)) ms)"
      using names by (auto simp: filter_id_conv)
    have neg: "filter (\<lambda>msg. msg_sentiment msg \<noteq> ''positive'') ms
                 = filter (\<lambda>msg. msg_sentiment msg = ''negative'') ms"
      using labels by (intro filter_cong) auto
    have ks: "fst ` set (wordFrequency k ms) = (\<Union>msg \<in> set ms. set (wordSplit k (msg_text msg)))"
      using names by (auto simp: wordFrequency_columns(1))
    show ?thesis
      using ks by (simp add: wordFrequency_columns(2,3) wordFrequency_total_sum keep keep_all neg)
  qed
  from part_001 part_000 show ?thesis by blast
qed

theorem freq_sum_eq_tokens_and_vocabulary_witness:
  "sum_list (map snd (posFreq (computeMetrics
      [\<lparr>row_review = Some ''Good, good film'', row_text = None, row_content = None,
        row_sentiment = Some ''positive'', row_label = None\<rparr>]))) = 3
   \<and> sum_list (map (\<lambda>e. positive (snd e)) (wordFrequency 3
        [\<lparr>msg_text = ''good good film'', msg_sentiment = ''positive''\<rparr>,
         \<lparr>msg_text = ''bad film'', msg_sentiment = ''negative''\<rparr>])) = 3
   \<and> sum_list (map (\<lambda>e. negative (snd e)) (wordFrequency 3
        [\<lparr>msg_text = ''good good film'', msg_sentiment = ''positive''\<rparr>,
         \<lparr>msg_text = ''bad film'', msg_sentiment = ''negative''\<rparr>])) = 2
   \<and> sum_list (map (\<lambda>e. total_count (snd e)) (wordFrequency 3
        [\<lparr>msg_text = ''good good film'', msg_sentiment = ''positive''\<rparr>,
         \<lparr>msg_text = ''bad film'', msg_sentiment = ''negative''\<rparr>])) = 5"
proof -
  let ?r = "\<lparr>row_review = Some ''Good, good film'', row_text = None, row_content = None,
        row_sentiment = Some ''positive'', row_label = None\<rparr>"
  let ?ms = "[\<lparr>msg_text = ''good good film'', msg_sentiment = ''positive''\<rparr>,
         \<lparr>msg_text = ''bad film'', msg_sentiment = ''negative''\<rparr>]"
  have e1: "wordSplit 3 ''good good film'' = [''good'', ''good'', ''film'']" by code_simp
  have e2: "wordSplit 3 ''bad film'' = [''bad'', ''film'']" by code_simp
  have e3: "row_tokens ?r = [''good'', ''good'', ''film'']" by code_simp
  have e4: "of_class Positive [?r] = [?r]" by code_simp
  have h1: "\<forall>msg \<in> set ?ms. msg_sentiment msg = ''positive'' \<or> msg_sentiment msg = ''negative''"
    by simp
  have h2: "\<forall>msg \<in> set ?ms. \<forall>w \<in> set (wordSplit 3 (msg_text msg)). w \<notin> set objectPrototypeKeys"
    by (simp add: e1 e2 objectPrototypeKeys_def)
  note inst = freq_sum_eq_tokens_and_vocabulary [of "[?r]" "[]" ?ms 3]
  from inst have "sum_list (map snd (posFreq (computeMetrics [?r])))
       = length (concat (map row_tokens (of_class Positive [?r])))"
    by blast
  then have a: "sum_list (map snd (posFreq (computeMetrics [?r]))) = 3"
    by (simp add: e3 e4)
  from inst h1 h2 have "sum_list (map (\<lambda>e. positive (snd e)) (wordFrequency 3 ?ms))
          = length (concat (map (\<lambda>msg. wordSplit 3 (msg_text msg))
              (filter (\<lambda>msg. msg_sentiment msg = ''positive'') ?ms)))"
    and "sum_list (map (\<lambda>e. negative (snd e)) (wordFrequency 3 ?ms))
          = length (concat (map (\<lambda>msg. wordSplit 3 (msg_text msg))
              (filter (\<lambda>msg. msg_sentiment msg = ''negative'') ?ms)))"
    and "sum_list (map (\<lambda>e. total_count (snd e)) (wordFrequency 3 ?ms))
          = length (concat (map (\<lambda>msg. wordSplit 3 (msg_text msg)) ?ms))"
    by blast+
  then have "sum_list (map (\<lambda>e. positive (snd e)) (wordFrequency 3 ?ms)) = 3"
    and "sum_list (map (\<lambda>e. negative (snd e)) (wordFrequency 3 ?ms)) = 2"
    and "sum_list (map (\<lambda>e. total_count (snd e)) (wordFrequency 3 ?ms)) = 5"
    by (simp_all add: e1 e2)
  with a show ?thesis by simp
qed

theorem freq_sum_exceeds_reviews_counterexample:
  "posFreq (computeMetrics
      [\<lparr>row_review = Some ''Good, good film'', row_text = None, row_content = None,
        row_sentiment = Some ''positive'', row_label = None\<rparr>]) = [(''good'', 2), (''film'', 1)]
   \<and> posCount (computeMetrics
      [\<lparr>row_review = Some ''Good, good film'', row_text = None, row_content = None,
        row_sentiment = Some ''positive'', row_label = None\<rparr>]) = 1
   \<and> \<not> sum_list (map snd [(''good'', 2 :: nat), (''film'', 1)]) \<le> (1 :: nat)
   \<and> map (\<lambda>e. (fst e, positive (snd e)))
        (wordFrequency 3 [\<lparr>msg_text = ''good good film'', msg_sentiment = ''positive''\<rparr>])
       = [(''good'', 2), (''film'', 1)]
   \<and> positiveCount (analyzeSentiment 3 [\<lparr>msg_text = ''good good film'', msg_sentiment = ''positive''\<rparr>])
       = 1"
  by code_simp

text \<open>
  C3, as amended: the tokenizer of part\_001 returns exactly the maximal runs of letters
  \<^verbatim>\<open>a-z\<close> of the lower-cased text without its URLs, less the stopwords: every other
  character, white space or not, ends a word. So each of its tokens is a non-empty string
  of letters \<^verbatim>\<open>a-z\<close>. The word split of part\_000 is another design: it deletes what
  is neither a word character \<^verbatim>\<open>[A-Za-z0-9_]\<close> nor white space and splits at white
  space, so its tokens are strings of word characters of the minimum length or longer.
\<close>

theorem tokenize_letter_runs_tokens:
  "tokenize text_in
     = filter (\<lambda>w. w \<notin> set ENGLISH_STOPWORDS) (letter_runs (replace_urls (toLowerCase text_in)))
   \<and> (\<forall>t \<in> set (tokenize text_in). t \<noteq> [] \<and> (\<forall>c \<in> set t. is_az c))
   \<and> (\<forall>t \<in> set (wordSplit n txt). n \<le> length t \<and> (\<forall>c \<in> set t. is_word c))"
proof (intro conjI ballI)
  show "tokenize text_in
     = filter (\<lambda>w. w \<notin> set ENGLISH_STOPWORDS) (letter_runs (replace_urls (toLowerCase text_in)))"
    by (rule tokenize_letter_runs)
next
  fix t assume "t \<in> set (tokenize text_in)"
  then show "t \<noteq> []" by (rule tokenize_token(1))
next
  fix t c assume "t \<in> set (tokenize text_in)" "c \<in> set t"
  then show "is_az c" by (rule tokenize_token(2))
next
  fix t assume "t \<in> set (wordSplit n txt)"
  then show "n \<le> length t" by (simp add: wordSplit_def)
next
  fix t c assume "t \<in> set (wordSplit n txt)" "c \<in> set t"
  then show "is_word c"
    using split_ws_pieces [of t "filter (\<lambda>c. is_word c \<or> is_space c) txt"]
    by (auto simp: wordSplit_def)
qed

theorem tokenize_letter_runs_tokens_witness:
  "tokenize ''Well-made, 2nd_rate!'' = [''well'', ''made'', ''nd'', ''rate'']
   \<and> list_all is_az ''well''
   \<and> wordSplit 3 ''well-made, 2nd_rate!'' = [''wellmade'', ''2nd_rate'']
   \<and> list_all is_word ''2nd_rate''"
proof -
  have e1: "tokenize ''Well-made, 2nd_rate!'' = [''well'', ''made'', ''nd'', ''rate'']"
    by code_simp
  have e2: "wordSplit 3 ''well-made, 2nd_rate!'' = [''wellmade'', ''2nd_rate'']"
    by code_simp
  from tokenize_letter_runs_tokens [of "''Well-made, 2nd_rate!''" 3 "''well-made, 2nd_rate!''"]
  have "\<forall>t \<in> set (tokenize ''Well-made, 2nd_rate!''). \<forall>c \<in> set t. is_az c"
    and "\<forall>t \<in> set (wordSplit 3 ''well-made, 2nd_rate!''). \<forall>c \<in> set t. is_word c"
    by blast+
  then have "list_all is_az ''well''" and "list_all is_word ''2nd_rate''"
    unfolding e1 e2 by (simp_all add: list_all_iff)
  with e1 e2 show ?thesis by simp
qed

theorem wordSplit_not_alphabetic_counterexample:
  "wordSplit 3 ''it's 2nd_rate'' = [''its'', ''2nd_rate''] \<and> \<not> is_az (CHR ''2'') \<and> \<not> is_az (CHR ''_'')"
  by code_simp

text \<open>
  C4, as amended. part\_001: for every table and every \<open>K \<ge> 0\<close>, \<^const>\<open>topEntries\<close>
  returns the first \<open>K\<close> entries of the one arrangement of the table that is sorted by
  falling count and keeps entries of equal count in the table's order; the table's order
  is the order in which the tokens were first seen. part\_000: \<^verbatim>\<open>topWords\<close> is the
  first 20 entries of the same arrangement of \<^verbatim>\<open>Object.values(wordFrequency)\<close>, whose
  order is not the insertion order when a word is an array index: such words come first,
  in numeric order.
\<close>

theorem topEntries_sorted_stable_truncated:
  "(0 \<le> n \<longrightarrow>
      (\<exists>full. topEntries m n = take (nat n) full \<and> mset full = mset m \<and>
         sorted_wrt (\<lambda>a b. snd a \<ge> snd b) full \<and>
         (\<forall>c. filter (\<lambda>e. snd e = c) full = filter (\<lambda>e. snd e = c) m)))
   \<and> map fst (posFreq (computeMetrics rows))
        = rev (remdups (rev (concat (map row_tokens (of_class Positive rows)))))
   \<and> map fst (negFreq (computeMetrics rows))
        = rev (remdups (rev (concat (map row_tokens (of_class Negative rows)))))
   \<and> (\<exists>full. topWords (analyzeSentiment k ms) = take 20 full \<and>
         mset full = mset (object_values (wordFrequency k ms)) \<and>
         sorted_wrt (\<lambda>a b. total_count a \<ge> total_count b) full \<and>
         (\<forall>c. filter (\<lambda>st. total_count st = c) full
                = filter (\<lambda>st. total_count st = c) (object_values (wordFrequency k ms))))"
proof (intro conjI impI)
  assume "0 \<le> n"
  then have "topEntries m n = take (nat n) (sort_key (\<lambda>e. - int (snd e)) m)"
    by (simp add: topEntries_def slice0_nonneg)
  then show "\<exists>full. topEntries m n = take (nat n) full \<and> mset full = mset m \<and>
         sorted_wrt (\<lambda>a b. snd a \<ge> snd b) full \<and>
         (\<forall>c. filter (\<lambda>e. snd e = c) full = filter (\<lambda>e. snd e = c) m)"
    using sort_desc_props [where f = snd and xs = m] by blast
next
  show "map fst (posFreq (computeMetrics rows))
        = rev (remdups (rev (concat (map row_tokens (of_class Positive rows)))))"
    by (rule posFreq_first_seen)
  show "map fst (negFreq (computeMetrics rows))
        = rev (remdups (rev (concat (map row_tokens (of_class Negative rows)))))"
    by (rule negFreq_first_seen)
  have "topWords (analyzeSentiment k ms)
     = take 20 (sort_key (\<lambda>st. - int (total_count st)) (object_values (wordFrequency k ms)))"
    by (rule analyzeSentiment_fields)
  then show "\<exists>full. topWords (analyzeSentiment k ms) = take 20 full \<and>
         mset full = mset (object_values (wordFrequency k ms)) \<and>
         sorted_wrt (\<lambda>a b. total_count a \<ge> total_count b) full \<and>
         (\<forall>c. filter (\<lambda>st. total_count st = c) full
                = filter (\<lambda>st. total_count st = c) (object_values (wordFrequency k ms)))"
    using sort_desc_props [where f = total_count and xs = "object_values (wordFrequency k ms)"] by blast
qed

theorem topEntries_sorted_stable_truncated_witness:
  "(0 :: int) \<le> 2
   \<and> topEntries [(''a'', 1), (''b'', 3), (''c'', 1), (''d'', 3)] 2 = [(''b'', 3), (''d'', 3)]
   \<and> length (topEntries [(''a'', 1), (''b'', 3), (''c'', 1), (''d'', 3)] 2) \<le> 2"
proof -
  let ?m = "[(''a'', 1 :: nat), (''b'', 3), (''c'', 1), (''d'', 3)]"
  have h: "(0 :: int) \<le> 2" by simp
  with topEntries_sorted_stable_truncated [of 2 ?m "[]" 3 "[]"]
  obtain full where "topEntries ?m 2 = take (nat 2) full" by blast
  then have "length (topEntries ?m 2) \<le> 2" by simp
  moreover have "topEntries ?m 2 = [(''b'', 3), (''d'', 3)]" by code_simp
  ultimately show ?thesis by simp
qed

theorem topWords_enumeration_order_counterexample:
  "map fst (wordFrequency 2 [\<lparr>msg_text = ''good 10'', msg_sentiment = ''positive''\<rparr>])
     = [''good'', ''10'']
   \<and> map word (topWords (analyzeSentiment 2 [\<lparr>msg_text = ''good 10'', msg_sentiment = ''positive''\<rparr>]))
     = [''10'', ''good'']
   \<and> map total_count (topWords (analyzeSentiment 2 [\<lparr>msg_text = ''good 10'', msg_sentiment = ''positive''\<rparr>]))
     = [1, 1]
   \<and> length (topEntries [(''a'', 1), (''b'', 3), (''c'', 1), (''d'', 3)] (- 1)) = 3"
  by code_simp

text \<open>
  C5: tokenizing the tokens of a text joined by single spaces gives back the tokens. It
  holds for the tokenizer of part\_001 as it is, stopwords removed, and for the word split
  of part\_000 at every minimum length.
\<close>

theorem tokenize_idempotent:
  "tokenize (join '' '' (tokenize text_in)) = tokenize text_in
   \<and> wordSplit n (join '' '' (wordSplit n txt)) = wordSplit n txt"
  by (simp add: tokenize_idem wordSplit_idem)

text \<open>
  C6 at the failing input of part\_000: the one review is the word \<^verbatim>\<open>constructor\<close>.
  The word survives the length filter, but \<^verbatim>\<open>wordFrequency['constructor']\<close> is the
  inherited \<^verbatim>\<open>Object\<close> function, which is truthy: no entry is created, and the table
  stays empty, so its values add up to 0 and not to 1.
\<close>

theorem wordFrequency_drops_inherited_name:
  "wordSplit 3 ''constructor'' = [''constructor'']
   \<and> wordFrequency 3 [\<lparr>msg_text = ''constructor'', msg_sentiment = ''positive''\<rparr>] = []
   \<and> topWords (analyzeSentiment 3 [\<lparr>msg_text = ''constructor'', msg_sentiment = ''positive''\<rparr>]) = []"
  by code_simp

text \<open>
  C7: a class with no review has the average length 0, by the guard on the number of
  reviews; without the guard the division 0/0 would give \<^verbatim>\<open>NaN\<close>. No average is
  \<^verbatim>\<open>NaN\<close> or infinite, whatever the rows.
\<close>

theorem average_of_empty_class_is_zero:
  "(posCount (computeMetrics rows) = 0 \<longrightarrow> avgPos (computeMetrics rows) = Num 0)
   \<and> (negCount (computeMetrics rows) = 0 \<longrightarrow> avgNeg (computeMetrics rows) = Num 0)
   \<and> (total_rows (computeMetrics rows) = 0 \<longrightarrow> avgOverall (computeMetrics rows) = Num 0)
   \<and> (positiveCount (analyzeSentiment k ms) = 0 \<longrightarrow> avgLengthPositive (analyzeSentiment k ms) = Num 0)
   \<and> (negativeCount (analyzeSentiment k ms) = 0 \<longrightarrow> avgLengthNegative (analyzeSentiment k ms) = Num 0)
   \<and> (\<exists>q. avgPos (computeMetrics rows) = Num q) \<and> (\<exists>q. avgNeg (computeMetrics rows) = Num q)
   \<and> (\<exists>q. avgOverall (computeMetrics rows) = Num q)
   \<and> (\<exists>q. avgLengthPositive (analyzeSentiment k ms) = Num q)
   \<and> (\<exists>q. avgLengthNegative (analyzeSentiment k ms) = Num q)"
proof -
  have nil: "avgLength [] = Num 0" by (simp add: avgLength_def)
  show ?thesis
    by (simp add: computeMetrics_fields analyzeSentiment_fields avg_finite avgLength_finite
          avg_Nil nil)
qed

theorem average_of_empty_class_is_zero_witness:
  "negCount (computeMetrics [\<lparr>row_review = Some ''Great movie'', row_text = None, row_content = None,
        row_sentiment = Some ''positive'', row_label = None\<rparr>]) = 0
   \<and> avgNeg (computeMetrics [\<lparr>row_review = Some ''Great movie'', row_text = None, row_content = None,
        row_sentiment = Some ''positive'', row_label = None\<rparr>]) = Num 0
   \<and> negativeCount (analyzeSentiment 3 [\<lparr>msg_text = ''great movie'', msg_sentiment = ''positive''\<rparr>]) = 0
   \<and> avgLengthNegative (analyzeSentiment 3 [\<lparr>msg_text = ''great movie'', msg_sentiment = ''positive''\<rparr>])
       = Num 0
   \<and> js_div 0 0 = NaN"
proof -
  let ?p = "\<lparr>row_review = Some ''Great movie'', row_text = None, row_content = None,
        row_sentiment = Some ''positive'', row_label = None\<rparr>"
  let ?m = "\<lparr>msg_text = ''great movie'', msg_sentiment = ''positive''\<rparr>"
  have c: "negCount (computeMetrics [?p]) = 0" "negativeCount (analyzeSentiment 3 [?m]) = 0"
    by code_simp+
  with average_of_empty_class_is_zero [of "[?p]" 3 "[?m]"]
  have "avgNeg (computeMetrics [?p]) = Num 0" "avgLengthNegative (analyzeSentiment 3 [?m]) = Num 0"
    by blast+
  with c show ?thesis by (simp add: js_div_def)
qed

text \<open>
  C8: with a smoothing constant \<open>\<alpha> > 0\<close> and frequencies that do not exceed the total of
  the class, the log-odds score grows strictly with the positive frequency of the term,
  the negative frequency and the totals held fixed.
\<close>

theorem logOdds_strictly_monotone:
  assumes "0 < \<alpha>" and "fp < fp'" and "fp' \<le> tp"
  shows "logOdds \<alpha> fp fn tp tn < logOdds \<alpha> fp' fn tp tn"
proof -
  let ?a = "real fp + \<alpha>" and ?b = "(real tp - real fp) + \<alpha>"
  let ?a' = "real fp' + \<alpha>" and ?b' = "(real tp - real fp') + \<alpha>"
  have pos: "0 < ?a" "0 < ?b'" using assms by simp_all
  have lt: "?a < ?a'" and le: "?b' \<le> ?b" using assms by simp_all
  have "?a / ?b < ?a' / ?b'"
    using pos lt le by (intro frac_less) simp_all
  moreover have "0 < ?a / ?b" using pos le by simp
  ultimately have "ln (?a / ?b) < ln (?a' / ?b')"
    by (simp add: ln_less_cancel_iff)
  then show ?thesis by (simp add: logOdds_def Let_def)
qed

theorem logOdds_strictly_monotone_witness:
  "(0 :: real) < 1 / 2 \<and> (1 :: nat) < 2 \<and> (2 :: nat) \<le> 10
   \<and> logOdds (1 / 2) 1 3 10 10 < logOdds (1 / 2) 2 3 10 10"
proof -
  have h: "(0 :: real) < 1 / 2" "(1 :: nat) < 2" "(2 :: nat) \<le> 10" by simp_all
  from logOdds_strictly_monotone [OF h] h show ?thesis by blast
qed

text \<open>
  C9, as amended. part\_001 takes the review from the first present column among
  \<^verbatim>\<open>review\<close>, \<^verbatim>\<open>text\<close>, \<^verbatim>\<open>content\<close> and the label from the first present column
  among \<^verbatim>\<open>sentiment\<close>, \<^verbatim>\<open>label\<close>, both when it parses the CSV and when it
  aggregates, and counts a row as Positive or Negative by its lower-cased label as the
  spec says. part\_000 reads the columns \<^verbatim>\<open>review\<close> and \<^verbatim>\<open>sentiment\<close> only, and
  counts the lower-cased labels \<^verbatim>\<open>positive\<close> and \<^verbatim>\<open>negative\<close> only.
\<close>

theorem row_columns_and_labels:
  "review_of r = spec_review r
   \<and> sentiment_of r = toLowerCase (spec_label r)
   \<and> map review_of (parseCsvText_rows rows)
       = map spec_review (filter (\<lambda>r. spec_review r \<noteq> [] \<and> spec_label r \<noteq> []) rows)
   \<and> map sentiment_of (parseCsvText_rows rows)
       = map (\<lambda>r. toLowerCase (spec_label r))
           (filter (\<lambda>r. spec_review r \<noteq> [] \<and> spec_label r \<noteq> []) rows)
   \<and> posCount (computeMetrics rows) = length (filter (\<lambda>r. row_class r = Some Positive) rows)
   \<and> negCount (computeMetrics rows) = length (filter (\<lambda>r. row_class r = Some Negative) rows)
   \<and> loadData rows
       = loadData (map (\<lambda>r. r\<lparr>row_text := None, row_content := None, row_label := None\<rparr>) rows)
   \<and> positiveCount (analyzeSentiment k ms)
       = length (filter (\<lambda>msg. msg_sentiment msg = ''positive'') ms)
   \<and> negativeCount (analyzeSentiment k ms)
       = length (filter (\<lambda>msg. msg_sentiment msg = ''negative'') ms)"
  using loadData_reads_two_columns [of rows]
  by (simp add: review_of_spec sentiment_of_spec parseCsvText_rows_spec computeMetrics_fields
        of_class_def analyzeSentiment_fields)

theorem loadData_ignores_aliases_counterexample:
  "loadData [\<lparr>row_review = None, row_text = Some ''Great movie'', row_content = None,
              row_sentiment = None, row_label = Some ''pos''\<rparr>] = []
   \<and> posCount (computeMetrics
        [\<lparr>row_review = None, row_text = Some ''Great movie'', row_content = None,
          row_sentiment = None, row_label = Some ''pos''\<rparr>]) = 1
   \<and> positiveCount (analyzeSentiment 3 (loadData
        [\<lparr>row_review = Some ''Great movie'', row_text = None, row_content = None,
          row_sentiment = Some ''pos'', row_label = None\<rparr>])) = 0"
  by code_simp

text \<open>
  C10: every token returned by the tokenizer of part\_001 is absent from the fixed English
  stopword set. The filter is part of \<^const>\<open>tokenize\<close> itself, which takes the text
  and nothing else: no argument or setting switches the removal off.
\<close>

theorem tokenize_no_stopwords:
  "\<forall>t \<in> set (tokenize text_in). t \<notin> set ENGLISH_STOPWORDS"
  by (auto simp: tokenize_def Let_def)

theorem tokenize_no_stopwords_witness:
  "tokenize ''The movie'' = [''movie''] \<and> ''movie'' \<notin> set ENGLISH_STOPWORDS"
proof -
  have e: "tokenize ''The movie'' = [''movie'']" by code_simp
  then have "''movie'' \<in> set (tokenize ''The movie'')" by simp
  with tokenize_no_stopwords [of "''The movie''"]
  have "''movie'' \<notin> set ENGLISH_STOPWORDS" by blast
  with e show ?thesis by simp
qed

end
